theory Spec2Isabelle
  imports Complex_Main "HOL-Library.Multiset"
begin

chapter \<open>The embedding\<close>

section \<open>JavaScript values\<close>

text \<open>
  The values the modelled functions receive and return. A number is modelled by an
  integer, the value of the double (the sequence attributes and defaults that reach the
  code are integers), an object by its own enumerable properties in insertion order.
\<close>

datatype jsval =
    JUndefined
  | JNull
  | JBool bool
  | JNum int
  | JStr string
  | JObj "(string \<times> jsval) list"

type_synonym jsobject = "(string \<times> jsval) list"

text \<open>\<open>o[k]\<close>: the property, or \<open>undefined\<close> when the object has none of that name.\<close>

definition obj_get :: "jsobject \<Rightarrow> string \<Rightarrow> jsval" where
  "obj_get ob k = (case map_of ob k of None \<Rightarrow> JUndefined | Some v \<Rightarrow> v)"

text \<open>
  \<open>o[k] = v\<close>: an existing property keeps its place in the enumeration order and takes
  the new value, a new one goes to the end.
\<close>

fun obj_set :: "jsobject \<Rightarrow> string \<Rightarrow> jsval \<Rightarrow> jsobject" where
  "obj_set [] k v = [(k, v)]"
| "obj_set ((k', v') # ob) k v =
     (if k' = k then (k, v) # ob else (k', v') # obj_set ob k v)"

text \<open>The object spread \<open>{...a, ...b}\<close>: the properties of \<open>b\<close> assigned over a copy of \<open>a\<close>.\<close>

definition obj_spread :: "jsobject \<Rightarrow> jsobject \<Rightarrow> jsobject" where
  "obj_spread a b = foldl (\<lambda>acc kv. obj_set acc (fst kv) (snd kv)) a b"

text \<open>JavaScript's truthiness, and Ramda's \<open>isNil\<close> behind \<^verbatim>\<open>utils.isExist\<close>.\<close>

fun truthy :: "jsval \<Rightarrow> bool" where
  "truthy JUndefined = False"
| "truthy JNull = False"
| "truthy (JBool b) = b"
| "truthy (JNum n) = (n \<noteq> 0)"
| "truthy (JStr s) = (s \<noteq> [])"
| "truthy (JObj ob) = True"

text \<open>
  \<^verbatim>\<open>exports.isExist = R.compose(R.not, R.isNil)\<close>
\<close>

fun isExist :: "jsval \<Rightarrow> bool" where
  "isExist JUndefined = False"
| "isExist JNull = False"
| "isExist v = True"

section \<open>Conversion to string\<close>

text \<open>
  \<open>String(v)\<close>, which is also what a template literal does to a value: the names of
  \<open>undefined\<close>, \<open>null\<close>, \<open>true\<close> and \<open>false\<close>, a string itself, \<^verbatim>\<open>[object Object]\<close> for
  a plain object, and the digits of a number. The numbers of the code are doubles. An
  integer below \<open>2\<^sup>5\<^sup>3\<close> in absolute value is printed with exactly its decimal digits;
  beyond that, a double is printed with the shortest digits that read back as the same
  double (\<open>2\<^sup>6\<^sup>3\<close> as \<^verbatim>\<open>9223372036854776000\<close>), and from \<open>10\<^sup>2\<^sup>1\<close> on with an exponent.
  That printing belongs to the language and is the parameter \<open>big\<close>.
\<close>

definition digit_char :: "nat \<Rightarrow> char" where
  "digit_char d = ''0123456789'' ! d"

fun string_of_nat :: "nat \<Rightarrow> string" where
  "string_of_nat n =
     (if n < 10 then [digit_char n] else string_of_nat (n div 10) @ [digit_char (n mod 10)])"

declare string_of_nat.simps [simp del]

definition string_of_int :: "int \<Rightarrow> string" where
  "string_of_int i = (if i < 0 then CHR ''-'' # string_of_nat (nat (- i)) else string_of_nat (nat i))"

fun js_String :: "(int \<Rightarrow> string) \<Rightarrow> jsval \<Rightarrow> string" where
  "js_String big JUndefined = ''undefined''"
| "js_String big JNull = ''null''"
| "js_String big (JBool b) = (if b then ''true'' else ''false'')"
| "js_String big (JNum n) = (if \<bar>n\<bar> < 2 ^ 53 then string_of_int n else big n)"
| "js_String big (JStr s) = s"
| "js_String big (JObj ob) = ''[object Object]''"

text \<open>\<open>chunks.join(sep)\<close>.\<close>

fun join :: "string \<Rightarrow> string list \<Rightarrow> string" where
  "join sep [] = []"
| "join sep [x] = x"
| "join sep (x # y # ys) = x @ sep @ join sep (y # ys)"

section \<open>Strings and characters\<close>

text \<open>
  JavaScript strings are modelled as \<^typ>\<open>string\<close>, a list of 8-bit characters: a
  character stands for the code unit of the same number, below 256. The two characters
  the literal quoting of \<^verbatim>\<open>parser.js\<close> looks at are the single quote (0x27) and the
  backslash (0x5C).
\<close>

definition sq :: char where
  "sq = CHR 0x27"

definition bsl :: char where
  "bsl = CHR 0x5C"

section \<open>Value codec: \<^verbatim>\<open>quoteLiteral\<close>\<close>

text \<open>
  \<^verbatim>\<open>
  exports.quoteLiteral = (value) => {
    const literal = value.slice(0)
    let hasBackslash = false
    let quoted = '\''
    for (let i = 0; i < literal.length; i++) {
      const c = literal[i]
      if (c === '\'') { quoted += c + c }
      else if (c === '\\') { quoted += c + c; hasBackslash = true }
      else { quoted += c }
    }
    quoted += '\''
    if (hasBackslash === true) { quoted = 'E' + quoted }
    return quoted
  }
  \<close>
  The loop carries the pair \<open>(quoted, hasBackslash)\<close>; one iteration is
  \<open>quoteLiteral_step\<close>, the whole loop \<open>quoteLiteral_loop\<close>.
\<close>

definition quoteLiteral_step :: "char \<Rightarrow> string \<times> bool \<Rightarrow> string \<times> bool" where
  "quoteLiteral_step c st =
     (if c = sq then (fst st @ [c, c], snd st)
      else if c = bsl then (fst st @ [c, c], True)
      else (fst st @ [c], snd st))"

fun quoteLiteral_loop :: "string \<Rightarrow> string \<times> bool \<Rightarrow> string \<times> bool" where
  "quoteLiteral_loop [] st = st"
| "quoteLiteral_loop (c # cs) st = quoteLiteral_loop cs (quoteLiteral_step c st)"

definition quoteLiteral :: "string \<Rightarrow> string" where
  "quoteLiteral v =
     (let st = quoteLiteral_loop v ([sq], False);
          quoted = fst st @ [sq]
      in if snd st then CHR ''E'' # quoted else quoted)"

text \<open>
  The quoting as the specification words it: every character is copied, a single quote
  and a backslash twice.
\<close>

definition doubled :: "char \<Rightarrow> string" where
  "doubled c = (if c = sq \<or> c = bsl then [c, c] else [c])"

definition quoted_body :: "string \<Rightarrow> string" where
  "quoted_body v = concat (map doubled v)"

section \<open>Value codec: \<^verbatim>\<open>defaultValueInformationSchema\<close>\<close>

text \<open>
  \<^verbatim>\<open>
  exports.defaultValueInformationSchema = (value) => {
    switch (typeof value) {
      case 'string': {
        // adding the public scheme in case of its absence
        value = value.replace(/(?<=nextval\(')(?=[^.]*$)/, 'public.')
        const regExp = /::[a-zA-Z ]+(?:\[\d+]|\[]){0,2}$/
        if (value.match(regExp)) { return value.replace(regExp, '') }
        else { return value }
      }
      default: { return value }
    }
  }
  \<close>
  Both regular expressions are used without the \<open>g\<close> flag, so \<^verbatim>\<open>replace\<close> rewrites
  the leftmost match only. The functions below compute that match.

  The first expression is an empty match at the first position that has
  \<^verbatim>\<open>nextval('\<close> right before it (nine characters) and no \<^verbatim>\<open>.\<close> anywhere after it up
  to the end of the string; \<open>public_nextval\<close> walks the start of those nine characters
  from left to right.
\<close>

definition nextval_open :: string where
  "nextval_open = ''nextval('' @ [sq]"

fun public_nextval :: "string \<Rightarrow> string" where
  "public_nextval [] = []"
| "public_nextval (c # cs) =
     (if take 9 (c # cs) = nextval_open \<and> CHR ''.'' \<notin> set (drop 9 (c # cs))
      then nextval_open @ ''public.'' @ drop 9 (c # cs)
      else c # public_nextval cs)"

text \<open>
  The second expression matches, at a start position, the two colons, then one or more
  characters of \<^verbatim>\<open>[a-zA-Z ]\<close>, then at most two groups \<^verbatim>\<open>[]\<close> or \<^verbatim>\<open>[digits]\<close>, then the
  end of the string. None of the later parts can start with a character of an earlier
  one, so the greedy reading is the only one: \<open>is_cast\<close> decides whether a whole suffix
  has this shape, and \<open>strip_cast\<close> cuts the string at the leftmost such suffix.
\<close>

definition is_letter_or_space :: "char \<Rightarrow> bool" where
  "is_letter_or_space c \<longleftrightarrow>
     c \<in> set (''abcdefghijklmnopqrstuvwxyz'' @ ''ABCDEFGHIJKLMNOPQRSTUVWXYZ'' @ '' '')"

definition is_digit :: "char \<Rightarrow> bool" where
  "is_digit c \<longleftrightarrow> c \<in> set ''0123456789''"

definition bracket_group :: "string \<Rightarrow> string option" where
  "bracket_group s =
     (case s of
        [] \<Rightarrow> None
      | c # r \<Rightarrow>
          if c = CHR ''['' then
            (case dropWhile is_digit r of
               [] \<Rightarrow> None
             | d # r' \<Rightarrow> if d = CHR '']'' then Some r' else None)
          else None)"

definition cast_tail :: "string \<Rightarrow> bool" where
  "cast_tail r \<longleftrightarrow>
     r = [] \<or>
     (case bracket_group r of
        None \<Rightarrow> False
      | Some r1 \<Rightarrow>
          r1 = [] \<or> (case bracket_group r1 of None \<Rightarrow> False | Some r2 \<Rightarrow> r2 = []))"

definition is_cast :: "string \<Rightarrow> bool" where
  "is_cast s \<longleftrightarrow>
     take 2 s = ''::'' \<and>
     takeWhile is_letter_or_space (drop 2 s) \<noteq> [] \<and>
     cast_tail (dropWhile is_letter_or_space (drop 2 s))"

fun strip_cast :: "string \<Rightarrow> string" where
  "strip_cast [] = []"
| "strip_cast (c # cs) = (if is_cast (c # cs) then [] else c # strip_cast cs)"

definition defaultValueInformationSchema_str :: "string \<Rightarrow> string" where
  "defaultValueInformationSchema_str v = strip_cast (public_nextval v)"

definition defaultValueInformationSchema :: "jsval \<Rightarrow> jsval" where
  "defaultValueInformationSchema v =
     (case v of JStr s \<Rightarrow> JStr (defaultValueInformationSchema_str s) | _ \<Rightarrow> v)"

text \<open>The characters that can follow the two colons of a cast the second expression matches.\<close>

definition cast_char :: "char \<Rightarrow> bool" where
  "cast_char x \<longleftrightarrow> is_letter_or_space x \<or> is_digit x \<or> x = CHR ''['' \<or> x = CHR '']''"

section \<open>Schema normalizer: the cleanable policy\<close>

text \<open>
  \<^verbatim>\<open>
  const _cleanableDefaults = {
    primaryKey: true, foreignKey: false, unique: false, check: false,
  }
  const _encryptedNamesListExtensions = {
    primaryKeys: 'primaryKey', indexes: 'index', foreignKeys: 'foreignKey',
    checks: 'check', unique: 'unique',
  }
  const _normalizeCleanableObject = (object) => {
    if (object) {
      const encrypted = Object.entries(object)
        .reduce((acc, [ listName, value ]) => {
          acc[_encryptedNamesListExtensions[listName]] = value
          return acc
        }, {})
      return { ..._cleanableDefaults, ...encrypted }
    }
    return _cleanableDefaults
  }
  \<close>
  An Isabelle name cannot start with an underscore, so the leading underscore of these
  three source names is dropped.
\<close>

definition cleanableDefaults :: jsobject where
  "cleanableDefaults =
     [(''primaryKey'', JBool True), (''foreignKey'', JBool False),
      (''unique'', JBool False), (''check'', JBool False)]"

definition encryptedNamesListExtensions :: "(string \<times> string) list" where
  "encryptedNamesListExtensions =
     [(''primaryKeys'', ''primaryKey''), (''indexes'', ''index''),
      (''foreignKeys'', ''foreignKey''), (''checks'', ''check''), (''unique'', ''unique'')]"

text \<open>
  The property key \<open>_encryptedNamesListExtensions[listName]\<close> is used under: a list name
  the table does not have gives \<open>undefined\<close>, which as a property key is the string
  \<^verbatim>\<open>undefined\<close>.
\<close>

definition encryptedName :: "string \<Rightarrow> string" where
  "encryptedName listName =
     (case map_of encryptedNamesListExtensions listName of
        None \<Rightarrow> ''undefined''
      | Some t \<Rightarrow> t)"

text \<open>
  \<open>Object.entries\<close>: the properties of an object, the characters of a string under their
  indices, nothing for a number or a boolean.
\<close>

fun Object_entries :: "jsval \<Rightarrow> (string \<times> jsval) list" where
  "Object_entries (JObj ob) = ob"
| "Object_entries (JStr s) = map (\<lambda>i. (string_of_nat i, JStr [s ! i])) [0..<length s]"
| "Object_entries v = []"

definition normalizeCleanableObject :: "jsval \<Rightarrow> jsobject" where
  "normalizeCleanableObject object =
     (if truthy object then
        let encrypted =
              foldl (\<lambda>acc kv. obj_set acc (encryptedName (fst kv)) (snd kv)) []
                (Object_entries object)
        in obj_spread cleanableDefaults encrypted
      else cleanableDefaults)"

section \<open>Value codec: type groups\<close>

text \<open>
  \<^verbatim>\<open>
  const regExpTypeOptions = /\[]|\[\w+]|\(\w+\)|'(\w+|\d+)'/g
  exports.trimType = (type) => type.replace(regExpTypeOptions, '').trim()
  \<close>
  \<open>option_length s\<close> is the length of the match of \<open>regExpTypeOptions\<close> that starts at
  the head of \<open>s\<close>, when there is one: \<^verbatim>\<open>[]\<close>, or one or more word characters between
  \<^verbatim>\<open>[\<close> and \<^verbatim>\<open>]\<close>, between parentheses or between single quotes. The closing character is
  no word character, so the word characters are taken greedily. \<open>removeOptions\<close> is the
  global replacement by the empty string: after a match the search goes on behind it.
\<close>

definition is_word :: "char \<Rightarrow> bool" where
  "is_word c \<longleftrightarrow>
     c \<in> set (''abcdefghijklmnopqrstuvwxyz'' @ ''ABCDEFGHIJKLMNOPQRSTUVWXYZ'' @
              ''0123456789'' @ ''_'')"

definition closing :: "char \<Rightarrow> char option" where
  "closing c =
     (if c = CHR ''['' then Some (CHR '']'')
      else if c = CHR ''('' then Some (CHR '')'')
      else if c = sq then Some sq
      else None)"

definition option_length :: "string \<Rightarrow> nat option" where
  "option_length s =
     (case s of
        [] \<Rightarrow> None
      | c # r \<Rightarrow>
          if c = CHR ''['' \<and> take 1 r = '']'' then Some 2
          else
            (case closing c of
               None \<Rightarrow> None
             | Some d \<Rightarrow>
                 if takeWhile is_word r \<noteq> [] \<and> take 1 (dropWhile is_word r) = [d]
                 then Some (length (takeWhile is_word r) + 2)
                 else None))"

fun removeOptions :: "string \<Rightarrow> string" where
  "removeOptions [] = []"
| "removeOptions (c # cs) =
     (case option_length (c # cs) of
        None \<Rightarrow> c # removeOptions cs
      | Some n \<Rightarrow> removeOptions (drop (n - 1) cs))"

text \<open>
  The white space and line terminators that \<open>trim\<close> removes, among the characters of the
  model (the code units below 256): tab, line feed, vertical tab, form feed, carriage
  return, space and the no-break space U+00A0.
\<close>

definition is_space :: "char \<Rightarrow> bool" where
  "is_space c \<longleftrightarrow>
     c \<in> set [CHR '' '', CHR 0x09, CHR 0x0A, CHR 0x0B, CHR 0x0C, CHR 0x0D, CHR 0xA0]"

definition trim :: "string \<Rightarrow> string" where
  "trim s = rev (dropWhile is_space (rev (dropWhile is_space s)))"

definition trimType :: "string \<Rightarrow> string" where
  "trimType type = trim (removeOptions type)"

text \<open>
  \<^verbatim>\<open>
  exports.getTypeGroup = (type) => {
    if (type) {
      type = exports.trimType(type)
      return Object.values(TYPES.GROUPS).find((group) => group.includes(type))
    }
  }
  \<close>
  \<open>TYPES.GROUPS\<close> comes from the constants module, which is not among the sources: it is
  a parameter here, the list of its entries (key and type names) in the order of
  \<open>Object.values\<close>. A group is identified by its key; the result is \<open>None\<close> for
  \<open>undefined\<close>. \<open>decodeValue\<close> reads the groups under the keys \<open>JSON\<close>, \<open>INTEGER\<close> and
  \<open>BOOLEAN\<close>, which the model takes to be there.
\<close>

type_synonym type_groups = "(string \<times> string list) list"

definition getTypeGroup :: "type_groups \<Rightarrow> string \<Rightarrow> string option" where
  "getTypeGroup GROUPS type =
     (if type \<noteq> [] then
        map_option fst (find (\<lambda>group. trimType type \<in> set (snd group)) GROUPS)
      else None)"

section \<open>Value codec: \<^verbatim>\<open>encodeValue\<close> and \<^verbatim>\<open>decodeValue\<close>\<close>

text \<open>
  \<^verbatim>\<open>
  exports.encodeValue = (value) => {
    switch (typeof value) {
      case 'number' : return value
      case 'string': {
        const regExp = /::sql$/
        if (value.match(regExp)) { return value.replace(regExp, '') }
        else { return exports.quoteLiteral(value) }
      }
      default: {
        return R.is(Object, value) ? exports.quoteLiteral(JSON.stringify(value)) : value
      }
    }
  }
  \<close>
  \<open>JSON.stringify\<close> and \<open>JSON.parse\<close> belong to the language, not to the repository:
  they are parameters.
\<close>

definition sql_suffix :: string where
  "sql_suffix = ''::sql''"

definition ends_with_sql :: "string \<Rightarrow> bool" where
  "ends_with_sql s \<longleftrightarrow> length sql_suffix \<le> length s \<and> drop (length s - length sql_suffix) s = sql_suffix"

definition encodeValue :: "(jsval \<Rightarrow> string) \<Rightarrow> jsval \<Rightarrow> jsval" where
  "encodeValue JSON_stringify v =
     (case v of
        JNum n \<Rightarrow> JNum n
      | JStr s \<Rightarrow>
          if ends_with_sql s then JStr (take (length s - length sql_suffix) s)
          else JStr (quoteLiteral s)
      | JObj ob \<Rightarrow> JStr (quoteLiteral (JSON_stringify v))
      | _ \<Rightarrow> v)"

text \<open>
  \<^verbatim>\<open>
  exports.decodeValue = (value, type) => {
    if (typeof value === 'string') {
      const bracketsContent = /(?<=^').*(?='$)/
      const typeGroup = exports.getTypeGroup(type)
      const defaultValue = `${value}::sql`
      switch (typeGroup) {
        case TYPES.GROUPS.JSON: {
          const match = value.match(bracketsContent)
          return match ? JSON.parse(match[0]) : defaultValue
        }
        case TYPES.GROUPS.INTEGER: {
          const match = value.match(/^[0-9]*$/)
          return match ? match[0] : defaultValue
        }
        case TYPES.GROUPS.BOOLEAN: {
          if (value === 'true') { return true }
          else if (value === 'false') { return false }
          else { return defaultValue }
        }
        default: {
          const match = value.match(bracketsContent)
          return match ? match[0] : defaultValue
        }
      }
    } else { return value }
  }
  \<close>
  The expression \<open>bracketsContent\<close> can only match at index 1, behind a single quote that
  starts the string; \<^verbatim>\<open>.*\<close> then runs over characters that are no line terminators, and
  the lookahead asks for a single quote that is the last character of the string. So it
  matches exactly a string of at least two characters between two single quotes with no
  line terminator between them, and the match is what stands between the quotes.
\<close>

definition is_line_terminator :: "char \<Rightarrow> bool" where
  "is_line_terminator c \<longleftrightarrow> c = CHR 0x0A \<or> c = CHR 0x0D"

definition bracketsContent :: "string \<Rightarrow> string option" where
  "bracketsContent s =
     (case s of
        [] \<Rightarrow> None
      | c # r \<Rightarrow>
          if c = sq \<and> r \<noteq> [] \<and> last r = sq \<and> \<not> list_ex is_line_terminator (butlast r)
          then Some (butlast r)
          else None)"

datatype error = SyntaxError | TypeError | ValidationError string | QueryError string

definition decodeValue ::
  "type_groups \<Rightarrow> (string \<Rightarrow> error + jsval) \<Rightarrow> jsval \<Rightarrow> string \<Rightarrow> error + jsval" where
  "decodeValue GROUPS JSON_parse v type =
     (case v of
        JStr s \<Rightarrow>
          let typeGroup = getTypeGroup GROUPS type;
              defaultValue = JStr (s @ sql_suffix)
          in if typeGroup = Some ''JSON'' then
               (case bracketsContent s of
                  Some m \<Rightarrow> JSON_parse m
                | None \<Rightarrow> Inr defaultValue)
             else if typeGroup = Some ''INTEGER'' then
               (if list_all is_digit s then Inr (JStr s) else Inr defaultValue)
             else if typeGroup = Some ''BOOLEAN'' then
               (if s = ''true'' then Inr (JBool True)
                else if s = ''false'' then Inr (JBool False)
                else Inr defaultValue)
             else
               (case bracketsContent s of
                  Some m \<Rightarrow> Inr (JStr m)
                | None \<Rightarrow> Inr defaultValue)
      | _ \<Rightarrow> Inr v)"

text \<open>A string that survives the quoting and the extraction unchanged.\<close>

definition plain :: "string \<Rightarrow> bool" where
  "plain s \<longleftrightarrow> \<not> list_ex (\<lambda>c. c = sq \<or> c = bsl \<or> is_line_terminator c) s"

text \<open>
  An instance of the parameters to evaluate the codec on: three type groups, and a
  \<open>JSON.stringify\<close> and \<open>JSON.parse\<close> that know the empty object only.
\<close>

definition example_groups :: type_groups where
  "example_groups =
     [(''JSON'', [''json'', ''jsonb'']),
      (''INTEGER'', [''smallint'', ''integer'', ''bigint'']),
      (''BOOLEAN'', [''boolean''])]"

definition example_stringify :: "jsval \<Rightarrow> string" where
  "example_stringify v = ''{}''"

definition example_parse :: "string \<Rightarrow> error + jsval" where
  "example_parse s = (if s = ''{}'' then Inr (JObj []) else Inl SyntaxError)"

section \<open>Sequence differ\<close>

text \<open>
  Modelled from the spec: the \<open>Sql\<close> class (\<^verbatim>\<open>../sql\<close>) is not among the sources. Its
  store is a list of change operations, each an operation tag with the literal SQL text
  (the \<open>ChangeOperation\<close> of the data model); \<open>Sql.create(operation, value)\<close> makes one
  operation, \<open>new Sql(x)\<close> holds one operation or a list of them, and \<open>getStore()\<close>
  returns the list.
\<close>

record sqlop =
  operation :: string
  "value" :: string

type_synonym sql = "sqlop list"

definition Sql_create :: "string \<Rightarrow> string \<Rightarrow> sqlop" where
  "Sql_create op v = \<lparr>operation = op, value = v\<rparr>"

text \<open>
  \<^verbatim>\<open>
  exports.separateSchema = (name) => {
    const chunks = name.split('.')
    return [ chunks[1] ? chunks[0] : undefined, chunks[1] || chunks[0] ]
  }
  ...
  const [schema = 'public', name] = parser.separateSchema(properties.name);
  const _fullName = `${schema}.${name}`;
  \<close>
\<close>

fun split_dot :: "string \<Rightarrow> string list" where
  "split_dot [] = [[]]"
| "split_dot (c # cs) =
     (if c = CHR ''.'' then [] # split_dot cs
      else (case split_dot cs of [] \<Rightarrow> [[c]] | w # ws \<Rightarrow> (c # w) # ws))"

definition separateSchema :: "string \<Rightarrow> string option \<times> string" where
  "separateSchema name =
     (case split_dot name of
        c0 # c1 # rest \<Rightarrow> if c1 \<noteq> [] then (Some c0, c1) else (None, c0)
      | [c0] \<Rightarrow> (None, c0)
      | [] \<Rightarrow> (None, []))"

definition fullName :: "string \<Rightarrow> string" where
  "fullName name =
     (case separateSchema name of
        (None, n) \<Rightarrow> ''public'' @ ''.'' @ n
      | (Some s, n) \<Rightarrow> s @ ''.'' @ n)"

text \<open>
  A sequence object, after its constructor ran: \<open>properties\<close> is the validated merge of
  the defaults and the caller's properties, \<open>force\<close> the option of the same name,
  \<open>DEFAULTS\<close> and \<open>ATTRIBUTES\<close> the two constants of \<^verbatim>\<open>constants/sequences\<close>, which is not
  among the sources (the spec names the attributes: start, min, max, increment, cycle).
  The constructor has split the name, so it is a string; \<open>seq_fullName\<close> is \<open>_fullName\<close>.
\<close>

record sequence =
  properties :: jsobject
  force :: jsval
  DEFAULTS :: jsobject
  ATTRIBUTES :: "string list"

definition forceCreate :: "sequence \<Rightarrow> jsval" where
  "forceCreate sqn =
     (if \<not> isExist (obj_get (properties sqn) ''force'') then force sqn
      else obj_get (properties sqn) ''force'')"

definition seq_fullName :: "sequence \<Rightarrow> string" where
  "seq_fullName sqn =
     fullName (case obj_get (properties sqn) ''name'' of JStr name \<Rightarrow> name | _ \<Rightarrow> [])"

text \<open>
  \<^verbatim>\<open>
  const _buildSql = ({ action, ...rest }) => {
    const chunks = [];
    Object.entries(rest).forEach(([key, value]) => {
      switch (key) {
        case 'start':
          value ? chunks.push(`start ${value}`) : chunks.push('no start'); break;
        case 'increment':
          value ? chunks.push(`increment ${value}`)
                : chunks.push(`increment ${DEFAULTS.increment}`); break;
        case 'min':
          value ? chunks.push(`minvalue ${value}`) : chunks.push('no minvalue'); break;
        case 'max':
          value ? chunks.push(`maxvalue ${value}`) : chunks.push('no maxvalue'); break;
        case 'cycle':
          value ? chunks.push('cycle') : chunks.push('no cycle'); break;
        case 'current':
          utils.isExist(value) && chunks.push(`restart with ${value}`); break;
        default: break;
      }
    });
    if (chunks.length) {
      chunks.unshift(`${action} sequence ${_fullName}`);
      return new Sql(Sql.create(`${action} sequence`, chunks.join(' ') + ';'));
    }
    return null;
  };
  \<close>
  \<open>clause\<close> is what one entry pushes on \<open>chunks\<close>: one chunk, or none.
\<close>

definition clause ::
  "(int \<Rightarrow> string) \<Rightarrow> jsobject \<Rightarrow> string \<Rightarrow> jsval \<Rightarrow> string list" where
  "clause big defaults key v =
     (if key = ''start'' then
        [if truthy v then ''start '' @ js_String big v else ''no start'']
      else if key = ''increment'' then
        [if truthy v then ''increment '' @ js_String big v
         else ''increment '' @ js_String big (obj_get defaults ''increment'')]
      else if key = ''min'' then
        [if truthy v then ''minvalue '' @ js_String big v else ''no minvalue'']
      else if key = ''max'' then
        [if truthy v then ''maxvalue '' @ js_String big v else ''no maxvalue'']
      else if key = ''cycle'' then
        [if truthy v then ''cycle'' else ''no cycle'']
      else if key = ''current'' then
        (if isExist v then [''restart with '' @ js_String big v] else [])
      else [])"

definition buildSql_chunks ::
  "(int \<Rightarrow> string) \<Rightarrow> sequence \<Rightarrow> jsobject \<Rightarrow> string list" where
  "buildSql_chunks big sqn arg =
     concat (map (\<lambda>kv. clause big (DEFAULTS sqn) (fst kv) (snd kv))
                 (filter (\<lambda>kv. fst kv \<noteq> ''action'') arg))"

definition buildSql ::
  "(int \<Rightarrow> string) \<Rightarrow> sequence \<Rightarrow> jsobject \<Rightarrow> sql option" where
  "buildSql big sqn arg =
     (let action = js_String big (obj_get arg ''action'');
          chunks = buildSql_chunks big sqn arg
      in if chunks \<noteq> [] then
           Some [Sql_create (action @ '' sequence'')
                   (join '' '' ((action @ '' sequence '' @ seq_fullName sqn) # chunks) @ '';'')]
         else None)"

text \<open>
  \<^verbatim>\<open>
  const _getDifference = (a, b) =>
    ATTRIBUTES.reduce((acc, key) => {
      const leftValue = a[key];
      const rightValue = b[key];
      if (String(leftValue) !== String(rightValue)) { acc[key] = leftValue; }
      return acc;
    }, {});
  \<close>
\<close>

definition getDifference ::
  "(int \<Rightarrow> string) \<Rightarrow> string list \<Rightarrow> jsobject \<Rightarrow> jsobject \<Rightarrow> jsobject" where
  "getDifference big attrs a b =
     foldl (\<lambda>acc key.
              if js_String big (obj_get a key) \<noteq> js_String big (obj_get b key)
              then obj_set acc key (obj_get a key) else acc)
           [] attrs"

text \<open>
  \<^verbatim>\<open>
  const _getSqlChanges = async structures => {
    if (_forceCreate) {
      return new Sql([
        Sql.create('drop sequence', `drop sequence if exists ${_fullName} cascade;`),
        ..._buildSql({ action: 'create', ...properties }).getStore(),
      ]);
    } else {
      const structure = structures.get(_fullName);
      if (structure) {
        const diff = _getDifference(properties, structure);
        if (utils.isExist(diff.min) || utils.isExist(diff.max)) {
          const { rows: [{ correct }] } = await client.query(
            queries.hasCorrectCurrValue(_fullName, properties.min, properties.max));
          if (!correct) { diff.current = properties.min; }
        }
        return _buildSql({ action: 'alter', ...diff });
      } else {
        return _buildSql({ action: 'create', ...properties });
      }
    }
  };
  \<close>
  The snapshot \<open>structures\<close> maps a full name to the observed attributes. The answer of
  the read-only query is the parameter \<open>check\<close>: the error that the query or the reading
  of its first row throws, or whether \<open>correct\<close> is truthy. \<open>null.getStore()\<close>, when a forced creation has no clause at all,
  is a \<open>TypeError\<close>.
\<close>

definition getSqlChanges ::
  "(int \<Rightarrow> string) \<Rightarrow> sequence \<Rightarrow> (error + bool) \<Rightarrow> (string \<rightharpoonup> jsobject) \<Rightarrow> error + sql option" where
  "getSqlChanges big sqn check structures =
     (if truthy (forceCreate sqn) then
        (case buildSql big sqn (obj_spread [(''action'', JStr ''create'')] (properties sqn)) of
           None \<Rightarrow> Inl TypeError
         | Some store \<Rightarrow>
             Inr (Some (Sql_create ''drop sequence''
                          (''drop sequence if exists '' @ seq_fullName sqn @ '' cascade;'')
                        # store)))
      else
        (case structures (seq_fullName sqn) of
           Some structure \<Rightarrow>
             (let diff = getDifference big (ATTRIBUTES sqn) (properties sqn) structure in
              if isExist (obj_get diff ''min'') \<or> isExist (obj_get diff ''max'') then
               (case check of
                  Inl e \<Rightarrow> Inl e
                | Inr correct \<Rightarrow>
                    let diff' = (if \<not> correct
                                 then obj_set diff ''current'' (obj_get (properties sqn) ''min'')
                                 else diff)
                    in Inr (buildSql big sqn (obj_spread [(''action'', JStr ''alter'')] diff')))
              else Inr (buildSql big sqn (obj_spread [(''action'', JStr ''alter'')] diff)))
         | None \<Rightarrow>
             Inr (buildSql big sqn (obj_spread [(''action'', JStr ''create'')] (properties sqn)))))"

text \<open>An instance to evaluate the differ on.\<close>

definition example_sequence :: "jsobject \<Rightarrow> sequence" where
  "example_sequence props =
     \<lparr>properties = props, force = JBool False,
      DEFAULTS = [(''start'', JStr ''1''), (''increment'', JStr ''1''), (''cycle'', JBool False),
                  (''max'', JNull), (''min'', JNull)],
      ATTRIBUTES = [''start'', ''min'', ''max'', ''increment'', ''cycle'']\<rparr>"

text \<open>
  A desired sequence \<open>s\<close> with a given minimum, maximum and increment, and what is
  observed of it. \<open>example_big\<close> prints \<open>2\<^sup>6\<^sup>3\<close>, which is what the number literal
  \<^verbatim>\<open>9223372036854775807\<close> denotes, as the language does.
\<close>

definition example_desired :: "jsval \<Rightarrow> jsval \<Rightarrow> jsval \<Rightarrow> jsobject" where
  "example_desired mn mx inc =
     [(''name'', JStr ''s''), (''start'', JNum 1), (''min'', mn), (''max'', mx),
      (''increment'', inc), (''cycle'', JBool False)]"

definition example_observed :: jsobject where
  "example_observed =
     [(''start'', JStr ''1''), (''min'', JStr ''1''), (''max'', JStr ''9223372036854775807''),
      (''increment'', JStr ''1''), (''cycle'', JBool False)]"

definition example_big :: "int \<Rightarrow> string" where
  "example_big n = (if n = 2 ^ 63 then ''9223372036854776000'' else [])"

definition example_structures :: "jsobject \<Rightarrow> string \<rightharpoonup> jsobject" where
  "example_structures observed = [''public.s'' \<mapsto> observed]"

text \<open>
  The claim's words: the attributes whose desired value differs from the observed one
  under string comparison, whether the correctness check is asked for (the desired
  \<open>min\<close> or \<open>max\<close> differs and is neither \<open>null\<close> nor \<open>undefined\<close>), the clauses of the
  \<open>ALTER SEQUENCE\<close>, and the statement made of them.
\<close>

definition changed ::
  "(int \<Rightarrow> string) \<Rightarrow> string list \<Rightarrow> jsobject \<Rightarrow> jsobject \<Rightarrow> string list" where
  "changed big attrs a b =
     filter (\<lambda>key. js_String big (obj_get a key) \<noteq> js_String big (obj_get b key)) attrs"

definition needs_check ::
  "(int \<Rightarrow> string) \<Rightarrow> sequence \<Rightarrow> jsobject \<Rightarrow> bool" where
  "needs_check big sqn structure \<longleftrightarrow>
     (''min'' \<in> set (changed big (ATTRIBUTES sqn) (properties sqn) structure)
        \<and> isExist (obj_get (properties sqn) ''min''))
     \<or> (''max'' \<in> set (changed big (ATTRIBUTES sqn) (properties sqn) structure)
        \<and> isExist (obj_get (properties sqn) ''max''))"

definition changed_clauses ::
  "(int \<Rightarrow> string) \<Rightarrow> sequence \<Rightarrow> jsobject \<Rightarrow> string list" where
  "changed_clauses big sqn structure =
     concat (map (\<lambda>key. clause big (DEFAULTS sqn) key (obj_get (properties sqn) key))
                 (changed big (ATTRIBUTES sqn) (properties sqn) structure))"

definition restart_clause ::
  "(int \<Rightarrow> string) \<Rightarrow> sequence \<Rightarrow> jsobject \<Rightarrow> bool \<Rightarrow> string list" where
  "restart_clause big sqn structure correct =
     (if needs_check big sqn structure \<and> \<not> correct \<and> isExist (obj_get (properties sqn) ''min'')
      then [''restart with '' @ js_String big (obj_get (properties sqn) ''min'')]
      else [])"

definition alter_statement :: "sequence \<Rightarrow> string list \<Rightarrow> sql option" where
  "alter_statement sqn chunks =
     (if chunks = [] then None
      else Some [\<lparr>operation = ''alter sequence'',
                  value = join '' '' ((''alter sequence '' @ seq_fullName sqn) # chunks) @ '';''\<rparr>])"

definition sequence_attributes :: "string set" where
  "sequence_attributes = {''start'', ''min'', ''max'', ''increment'', ''cycle''}"

section \<open>The registry of a Differ instance\<close>










section \<open>The orderer and the executor: \<^verbatim>\<open>sync\<close>\<close>

subsection \<open>The client and the logger\<close>

text \<open>
  The client and the logger are outside the repository's files. What \<open>sync\<close> does to them
  is written down in the state it passes along: the calls made on the client, in order,
  and the messages given to the logger. A client is any function that answers the latest
  call from the whole history of calls, so it may depend on everything done to it before;
  an answer is a result or the error the call throws.
\<close>

datatype event = Query string | End

datatype logentry = LogInfo string | LogWarn string | LogError string

record qresult =
  rows :: "jsobject list"
  rowCount :: int

record st =
  calls :: "event list"
  logged :: "logentry list"

type_synonym client = "event list \<Rightarrow> error + qresult"

type_synonym 'a io = "st \<Rightarrow> (error + 'a) \<times> st"

definition io_return :: "'a \<Rightarrow> 'a io" where
  "io_return x s = (Inr x, s)"

definition io_throw :: "error \<Rightarrow> 'a io" where
  "io_throw e s = (Inl e, s)"

text \<open>\<open>await\<close> and sequencing: a step that throws ends what follows it.\<close>

definition io_bind :: "'a io \<Rightarrow> ('a \<Rightarrow> 'b io) \<Rightarrow> 'b io" where
  "io_bind m f s = (case m s of (Inl e, s') \<Rightarrow> (Inl e, s') | (Inr x, s') \<Rightarrow> f x s')"

text \<open>\<open>try { m } catch (error) { h error }\<close>.\<close>

definition io_catch :: "'a io \<Rightarrow> (error \<Rightarrow> 'a io) \<Rightarrow> 'a io" where
  "io_catch m h s = (case m s of (Inl e, s') \<Rightarrow> h e s' | (Inr x, s') \<Rightarrow> (Inr x, s'))"

definition client_query :: "client \<Rightarrow> string \<Rightarrow> qresult io" where
  "client_query cl q s =
     (let s' = s\<lparr>calls := calls s @ [Query q]\<rparr> in (cl (calls s'), s'))"

definition client_end :: "client \<Rightarrow> unit io" where
  "client_end cl s =
     (let s' = s\<lparr>calls := calls s @ [End]\<rparr>
      in (case cl (calls s') of Inl e \<Rightarrow> (Inl e, s') | Inr r \<Rightarrow> (Inr (), s')))"

definition logger :: "logentry \<Rightarrow> unit io" where
  "logger entry s = (Inr (), s\<lparr>logged := logged s @ [entry]\<rparr>)"

definition io_when :: "bool \<Rightarrow> unit io \<Rightarrow> unit io" where
  "io_when b m = (if b then m else io_return ())"

subsection \<open>The database version\<close>

text \<open>
  \<^verbatim>\<open>
  const _getDatabaseVersion = async () => {
    const { rows: [ row ] } = await _client.query('select version()')
    const version = row.version.match(/[0-9]+.[0-9]+/)
    return version ? Number(version[0]) : null
  }
  const _supportSeeds = (currentVersion) => currentVersion >= 9.5
  \<close>
  At a start position the expression takes the whole run of digits, then any character
  but a line terminator, then one or more digits. When that fails and the run has three
  digits or more, backtracking makes the run itself the match (its last two digits stand
  for the any-character and the second group). \<open>version_match_at\<close> is the match at the
  head of a string, \<open>version_match\<close> the leftmost match.

  \<open>Number\<close> belongs to the language and is a parameter; a number is \<open>NaN\<close> or a rational.
  \<open>null >= 9.5\<close> and \<open>NaN >= 9.5\<close> are false.
\<close>

datatype jsnumber = NaN | Finite rat

definition version_match_at :: "string \<Rightarrow> string option" where
  "version_match_at s =
     (let d1 = takeWhile is_digit s;
          r = dropWhile is_digit s;
          d2 = takeWhile is_digit (tl r)
      in if d1 = [] then None
         else if r \<noteq> [] \<and> \<not> is_line_terminator (hd r) \<and> d2 \<noteq> [] then Some (d1 @ [hd r] @ d2)
         else if 3 \<le> length d1 then Some d1
         else None)"

fun version_match :: "string \<Rightarrow> string option" where
  "version_match [] = None"
| "version_match (c # cs) =
     (case version_match_at (c # cs) of
        Some m \<Rightarrow> Some m
      | None \<Rightarrow> version_match cs)"

definition getDatabaseVersion :: "client \<Rightarrow> (string \<Rightarrow> jsnumber) \<Rightarrow> jsnumber option io" where
  "getDatabaseVersion cl Number_of =
     io_bind (client_query cl ''select version()'') (\<lambda>res.
       case rows res of
         [] \<Rightarrow> io_throw TypeError
       | row # other \<Rightarrow>
           (case obj_get row ''version'' of
              JStr v \<Rightarrow>
                io_return (case version_match v of
                             None \<Rightarrow> None
                           | Some m \<Rightarrow> Some (Number_of m))
            | _ \<Rightarrow> io_throw TypeError))"

definition supportSeeds :: "jsnumber option \<Rightarrow> bool" where
  "supportSeeds currentVersion =
     (case currentVersion of
        None \<Rightarrow> False
      | Some NaN \<Rightarrow> False
      | Some (Finite v) \<Rightarrow> v \<ge> 95 / 10)"

subsection \<open>Flattening, sorting, removing duplicates\<close>

text \<open>
  Modelled from the spec: \<open>utils.sortByList\<close> is not among the sources. The spec has it
  sort stably by a fixed priority list, "with any operation tag not in the list retained
  in its original relative position after the listed ones. Sorting is stable: operations
  with equal priority (or no explicit priority) preserve original ordering." The priority
  of a tag is its index in the list, and the length of the list when it is not there;
  \<open>sort_key\<close> is a stable insertion sort.
\<close>

fun index_of :: "'a list \<Rightarrow> 'a \<Rightarrow> nat" where
  "index_of [] x = 0"
| "index_of (y # ys) x = (if y = x then 0 else Suc (index_of ys x))"

definition sortByList :: "('a \<Rightarrow> string) \<Rightarrow> string list \<Rightarrow> 'a list \<Rightarrow> 'a list" where
  "sortByList prop order_list array = sort_key (\<lambda>x. index_of order_list (prop x)) array"

text \<open>\<open>R.uniq\<close>: the first occurrence of every element, in the order of the list.\<close>

fun uniq_from :: "'a list \<Rightarrow> 'a list \<Rightarrow> 'a list" where
  "uniq_from seen [] = []"
| "uniq_from seen (x # xs) =
     (if x \<in> set seen then uniq_from seen xs else x # uniq_from (x # seen) xs)"

definition uniq :: "'a list \<Rightarrow> 'a list" where
  "uniq xs = uniq_from [] xs"

text \<open>
  \<open>Promise.all\<close>: the values of all promises, in the order of the list, or the rejection
  of the promise that rejects first in time. The promises of one category are started
  together, and which of several rejections comes first is decided by the scheduling of
  the differs, outside the sources: it is the parameter \<open>race\<close>, which is given the
  rejections in the order of the list and names the winner. A \<open>race\<close> that names none of
  them is read as the first of the list.
\<close>

fun rejections :: "(error + 'a) list \<Rightarrow> error list" where
  "rejections [] = []"
| "rejections (Inl e # ps) = e # rejections ps"
| "rejections (Inr x # ps) = rejections ps"

fun fulfilled :: "(error + 'a) list \<Rightarrow> 'a list" where
  "fulfilled [] = []"
| "fulfilled (Inl e # ps) = fulfilled ps"
| "fulfilled (Inr x # ps) = x # fulfilled ps"

definition promise_all :: "(error list \<Rightarrow> error) \<Rightarrow> (error + 'a) list \<Rightarrow> error + 'a list" where
  "promise_all race ps =
     (case rejections ps of
        [] \<Rightarrow> Inr (fulfilled ps)
      | e # es \<Rightarrow> Inl (if race (e # es) \<in> set (e # es) then race (e # es) else e))"

text \<open>
  \<^verbatim>\<open>
  const _getFlatAndSortedSqlList = async (orderOfOperations, promises) => {
    const result = await Promise.all(promises)
    let store = result.filter(Boolean).map((sql) => sql.getStore())
    store = R.unnest(store)
    if (orderOfOperations) {
      store = utils.sortByList(R.prop('operation'), orderOfOperations, store)
    }
    return store.map(R.prop('value'))
  }
  \<close>
  A differ's answer is a \<open>Sql\<close> object or a falsy value, \<open>None\<close> here.
\<close>

definition getStore :: "sql option \<Rightarrow> sqlop list" where
  "getStore x = (case x of None \<Rightarrow> [] | Some store \<Rightarrow> store)"

definition flat_store :: "sql option list \<Rightarrow> sqlop list" where
  "flat_store result = concat (map getStore (filter (\<lambda>x. x \<noteq> None) result))"

definition getFlatAndSortedSqlList ::
  "(error list \<Rightarrow> error) \<Rightarrow> string list option \<Rightarrow> (error + sql option) list \<Rightarrow> error + string list" where
  "getFlatAndSortedSqlList race orderOfOperations promises =
     (case promise_all race promises of
        Inl e \<Rightarrow> Inl e
      | Inr result \<Rightarrow>
          let store = flat_store result;
              store' = (case orderOfOperations of
                          None \<Rightarrow> store
                        | Some order_list \<Rightarrow> sortByList operation order_list store)
          in Inr (map value store'))"





subsection \<open>Executing one category\<close>

text \<open>
  \<^verbatim>\<open>
  const _entitySync = async ({ entity, orderOfOperations, promises, logging = true }) => {
    let sql = await _getFlatAndSortedSqlList(orderOfOperations, promises)
    if (R.isEmpty(sql)) {
      return false
    } else {
      sql = R.uniq(sql)
      const result = []
      entity = `[ ${chalk.green(entity)} ]`
      logging && logger.info(`${entity} updating...`, sql.join('\n'))
      for (let i = 0; i < sql.length; i++) {
        result.push(await _client.query(sql[i]))
      }
      logging && logger.info(`${entity} updated successfully`, null)
      return result
    }
  }
  \<close>
  \<open>exec_all\<close> is the \<open>for\<close> loop. The result \<open>false\<close> is \<open>None\<close>.
\<close>

fun exec_all :: "client \<Rightarrow> string list \<Rightarrow> qresult list io" where
  "exec_all cl [] s = (Inr [], s)"
| "exec_all cl (q # qs) s =
     (case client_query cl q s of
        (Inl e, s') \<Rightarrow> (Inl e, s')
      | (Inr r, s') \<Rightarrow>
          (case exec_all cl qs s' of
             (Inl e, s'') \<Rightarrow> (Inl e, s'')
           | (Inr rs, s'') \<Rightarrow> (Inr (r # rs), s'')))"

definition entitySync ::
  "(error list \<Rightarrow> error) \<Rightarrow> client \<Rightarrow> string \<Rightarrow> string list option \<Rightarrow> (error + sql option) list \<Rightarrow> bool \<Rightarrow>
   qresult list option io" where
  "entitySync race cl entity orderOfOperations promises logging s =
     (case getFlatAndSortedSqlList race orderOfOperations promises of
        Inl e \<Rightarrow> (Inl e, s)
      | Inr sql \<Rightarrow>
          if sql = [] then (Inr None, s)
          else
            io_bind (io_when logging (logger (LogInfo (entity @ '' updating...'')))) (\<lambda>u.
            io_bind (exec_all cl (uniq sql)) (\<lambda>result.
            io_bind (io_when logging (logger (LogInfo (entity @ '' updated successfully'')))) (\<lambda>u.
            io_return (Some result)))) s)"

subsection \<open>The sync\<close>

text \<open>
  The table and sequence objects are outside the repository's files. A differ method is
  any function from the history of client calls at the moment it is called to a \<open>Sql\<close>
  object, a falsy value or the error it throws: it may read the database, and what it
  finds depends on what was executed before.
\<close>

type_synonym differ = "event list \<Rightarrow> error + sql option"

record tbl =
  getSqlCreateOrAlterTable :: differ
  getSqlExtensionChanges :: differ
  getSqlInsertSeeds :: differ
  getSqlSequenceActualize :: differ

text \<open>One category: the promises \<open>entities.map((e) => e.method())\<close>, then \<open>_entitySync\<close>.\<close>

definition category ::
  "(error list \<Rightarrow> error) \<Rightarrow> client \<Rightarrow> string \<Rightarrow> string list option \<Rightarrow> differ list \<Rightarrow> bool \<Rightarrow> qresult list option io" where
  "category race cl entity orderOfOperations differs logging s =
     entitySync race cl entity orderOfOperations (map (\<lambda>d. d (calls s)) differs) logging s"

definition orderOfExtensions :: "string list" where
  "orderOfExtensions =
     [''drop foreignKey'', ''drop primaryKey'', ''drop unique'', ''delete rows'', ''add unique'']"

text \<open>
  \<^verbatim>\<open>
  const _calculateSuccessfulInsets = R.ifElse(
    R.is(Array),
    R.reduce((acc, insert) => acc + insert.rowCount, 0),
    R.prop('rowCount'),
  )
  \<close>
  It is called with the array \<open>_entitySync\<close> returns.
\<close>

definition calculateSuccessfulInsets :: "qresult list \<Rightarrow> int" where
  "calculateSuccessfulInsets results = foldl (\<lambda>acc insert. acc + rowCount insert) 0 results"

text \<open>The entries of the array \<open>queries\<close>, and which of them \<open>filter(Boolean)\<close> keeps.\<close>

datatype qentry = Results "qresult list option" | Count int

fun qtruthy :: "qentry \<Rightarrow> bool" where
  "qtruthy (Results None) = False"
| "qtruthy (Results (Some rs)) = True"
| "qtruthy (Count n) = (n \<noteq> 0)"

text \<open>
  \<^verbatim>\<open>
  const sync = async (options) => {
    options = { ..._defaultSyncOptions, ...options }
    const tables = [ ..._tables.values() ]
    const sequences = [ ..._sequences.values() ]
    const databaseVersion = await _getDatabaseVersion()
    logger.info(chalk.green('Sync started'), null)
    logger.info(chalk.green(`Current version PostgreSQL: ${databaseVersion}`), null)
    options.transaction && await _client.query('begin')
    try {
      const queries = [
        await _entitySync({ entity: 'Sequences', orderOfOperations: null,
          promises: sequences.map((sequence) => sequence._getSqlChanges()) }),
        await _entitySync({ entity: 'Tables', orderOfOperations: null,
          promises: tables.map((table) => table._getSqlCreateOrAlterTable()) }),
        await _entitySync({ entity: 'Extensions',
          orderOfOperations: [ 'drop foreignKey', 'drop primaryKey', 'drop unique',
            'delete rows', 'add unique' ],
          promises: tables.map((table) => table._getSqlExtensionChanges()) }),
      ]
      let insertSeedCount = 0
      if (_supportSeeds(databaseVersion)) {
        const insertSeedQueries = await _entitySync({ entity: 'Seeds',
          orderOfOperations: null,
          promises: tables.map((table) => table._getSqlInsertSeeds()), logging: false })
        if (insertSeedQueries) {
          insertSeedCount = _calculateSuccessfulInsets(insertSeedQueries)
          logger.info(`Inserted ${chalk.green('seeds')}: ${chalk.green(insertSeedCount)}`, null)
          queries.push(insertSeedCount)
        }
      } else {
        logger.warn(`For Seeds need a PostgreSQL v9.5 or more`)
      }
      queries.push(
        await _entitySync({ entity: 'Sequence values', orderOfOperations: null,
          promises: tables.map((table) => table._getSqlSequenceActualize()) }))
      if (queries.filter(Boolean).length === 0) {
        logger.info('Database does not need updating', null)
      }
      options.transaction && await _client.query('commit')
      logger.info(chalk.green('Sync successful!'), null)
      await _client.end()
    } catch (error) {
      options.transaction && await _client.query('rollback')
      await _client.end()
      throw error
    }
  }
  \<close>
  \<open>sync_seeds\<close> is the \<open>if\<close> on \<open>_supportSeeds\<close>, with what it pushes on \<open>queries\<close>;
  \<open>sync_try\<close> is the \<open>try\<close> block, \<open>sync_catch\<close> the \<open>catch\<close> block.
\<close>

definition seeds_warning :: logentry where
  "seeds_warning = LogWarn ''For Seeds need a PostgreSQL v9.5 or more''"

definition sync_seeds ::
  "(error list \<Rightarrow> error) \<Rightarrow> client \<Rightarrow> jsnumber option \<Rightarrow> tbl list \<Rightarrow> qentry list io" where
  "sync_seeds race cl databaseVersion tables =
     (if supportSeeds databaseVersion then
        io_bind (category race cl ''Seeds'' None (map getSqlInsertSeeds tables) False)
          (\<lambda>insertSeedQueries.
             case insertSeedQueries of
               None \<Rightarrow> io_return []
             | Some results \<Rightarrow>
                 io_bind (logger (LogInfo ''Inserted seeds'')) (\<lambda>u.
                 io_return [Count (calculateSuccessfulInsets results)]))
      else
        io_bind (logger seeds_warning) (\<lambda>u.
        io_return []))"

definition sync_finish :: "client \<Rightarrow> bool \<Rightarrow> qentry list \<Rightarrow> unit io" where
  "sync_finish cl transaction queries =
     io_bind (io_when (filter qtruthy queries = [])
                (logger (LogInfo ''Database does not need updating''))) (\<lambda>u.
     io_bind (io_when transaction (io_bind (client_query cl ''commit'') (\<lambda>r. io_return ()))) (\<lambda>u.
     io_bind (logger (LogInfo ''Sync successful!'')) (\<lambda>u.
     client_end cl)))"

definition sync_try ::
  "(error list \<Rightarrow> error) \<Rightarrow> client \<Rightarrow> jsnumber option \<Rightarrow> bool \<Rightarrow> tbl list \<Rightarrow> differ list \<Rightarrow> unit io" where
  "sync_try race cl databaseVersion transaction tables sequences =
     io_bind (category race cl ''Sequences'' None sequences True) (\<lambda>q1.
     io_bind (category race cl ''Tables'' None (map getSqlCreateOrAlterTable tables) True) (\<lambda>q2.
     io_bind (category race cl ''Extensions'' (Some orderOfExtensions)
                (map getSqlExtensionChanges tables) True) (\<lambda>q3.
     io_bind (sync_seeds race cl databaseVersion tables) (\<lambda>seeds.
     io_bind (category race cl ''Sequence values'' None
                (map getSqlSequenceActualize tables) True) (\<lambda>q5.
     sync_finish cl transaction
       ([Results q1, Results q2, Results q3] @ seeds @ [Results q5]))))))"

definition sync_catch :: "client \<Rightarrow> bool \<Rightarrow> error \<Rightarrow> unit io" where
  "sync_catch cl transaction error =
     io_bind (io_when transaction (io_bind (client_query cl ''rollback'') (\<lambda>r. io_return ()))) (\<lambda>u.
     io_bind (client_end cl) (\<lambda>u.
     io_throw error))"

definition sync ::
  "(error list \<Rightarrow> error) \<Rightarrow> client \<Rightarrow> (string \<Rightarrow> jsnumber) \<Rightarrow> bool \<Rightarrow> tbl list \<Rightarrow> differ list \<Rightarrow> unit io" where
  "sync race cl Number_of transaction tables sequences =
     io_bind (getDatabaseVersion cl Number_of) (\<lambda>databaseVersion.
     io_bind (logger (LogInfo ''Sync started'')) (\<lambda>u.
     io_bind (logger (LogInfo ''Current version PostgreSQL'')) (\<lambda>u.
     io_bind (io_when transaction (io_bind (client_query cl ''begin'') (\<lambda>r. io_return ()))) (\<lambda>u.
     io_catch (sync_try race cl databaseVersion transaction tables sequences)
              (sync_catch cl transaction)))))"

text \<open>The state in which the \<open>try\<close> block starts, after the version was read in state \<open>s1\<close>.\<close>

definition started :: "st \<Rightarrow> bool \<Rightarrow> st" where
  "started s1 transaction =
     \<lparr>calls = calls s1 @ (if transaction then [Query ''begin''] else []),
      logged = logged s1 @ [LogInfo ''Sync started'', LogInfo ''Current version PostgreSQL'']\<rparr>"

definition st0 :: st where
  "st0 = \<lparr>calls = [], logged = []\<rparr>"

subsection \<open>The registries of the function-style Differ\<close>






subsection \<open>Instances to run the sync on\<close>

text \<open>
  A client that answers every call with the same result, carrying a version row, and
  throws on the statements of a given list; a race that the first rejection of the list
  wins; a \<open>Number\<close> that knows two version texts;
  tables and sequences whose differs answer with fixed operations.
\<close>

definition example_result :: "string \<Rightarrow> qresult" where
  "example_result version = \<lparr>rows = [[(''version'', JStr version)]], rowCount = 1\<rparr>"

definition example_client :: "string \<Rightarrow> string list \<Rightarrow> client" where
  "example_client version failing h =
     (case rev h of
        Query q # earlier \<Rightarrow>
          if q \<in> set failing then Inl (QueryError q) else Inr (example_result version)
      | _ \<Rightarrow> Inr (example_result version))"

definition example_race :: "error list \<Rightarrow> error" where
  "example_race es = (case es of [] \<Rightarrow> SyntaxError | e # other \<Rightarrow> e)"

definition example_Number :: "string \<Rightarrow> jsnumber" where
  "example_Number s =
     (if s = ''10.4'' then Finite (104 / 10)
      else if s = ''9.4'' then Finite (94 / 10)
      else NaN)"

definition constant_differ :: "sqlop list \<Rightarrow> differ" where
  "constant_differ ops h = (if ops = [] then Inr None else Inr (Some ops))"

definition example_table :: "sqlop list \<Rightarrow> sqlop list \<Rightarrow> sqlop list \<Rightarrow> sqlop list \<Rightarrow> tbl" where
  "example_table t e sd a =
     \<lparr>getSqlCreateOrAlterTable = constant_differ t,
      getSqlExtensionChanges = constant_differ e,
      getSqlInsertSeeds = constant_differ sd,
      getSqlSequenceActualize = constant_differ a\<rparr>"

chapter \<open>Properties\<close>

section \<open>Objects\<close>

lemma map_of_obj_set: "map_of (obj_set acc k v) = (map_of acc)(k \<mapsto> v)"
  by (induction acc k v rule: obj_set.induct) auto

lemma keys_obj_set: "fst ` set (obj_set acc k v) = insert k (fst ` set acc)"
  by (induction acc k v rule: obj_set.induct) auto

lemma distinct_obj_set: "distinct (map fst acc) \<Longrightarrow> distinct (map fst (obj_set acc k v))"
proof (induction acc k v rule: obj_set.induct)
  case (1 k v) show ?case by simp
next
  case (2 k' v' ob k v)
  then show ?case using keys_obj_set[of ob k v] by (auto simp: image_iff)
qed

lemma map_of_foldl_obj_set:
  "map_of (foldl (\<lambda>acc kv. obj_set acc (f (fst kv)) (snd kv)) acc ob)
     = map_of acc ++ map_of (rev (map (\<lambda>kv. (f (fst kv), snd kv)) ob))"
proof (induction ob arbitrary: acc)
  case Nil show ?case by simp
next
  case (Cons x xs)
  show ?case
    by (simp add: Cons.IH map_of_obj_set map_add_upd_left fun_eq_iff map_add_def split: option.splits)
qed

lemma distinct_foldl_obj_set:
  "distinct (map fst acc) \<Longrightarrow>
   distinct (map fst (foldl (\<lambda>acc kv. obj_set acc (f (fst kv)) (snd kv)) acc ob))"
  by (induction ob arbitrary: acc) (simp_all add: distinct_obj_set)

lemma map_of_obj_spread: "map_of (obj_spread a b) = map_of a ++ map_of (rev b)"
  using map_of_foldl_obj_set[of "\<lambda>k. k" a b] by (simp add: obj_spread_def)

lemma map_of_rev_distinct: "distinct (map fst xs) \<Longrightarrow> map_of (rev xs) = map_of xs"
proof (induction xs)
  case Nil show ?case by simp
next
  case (Cons x xs)
  then have "map_of xs (fst x) = None" by (auto simp: map_of_eq_None_iff)
  with Cons show ?case
    by (cases x) (auto simp: fun_eq_iff map_add_def split: option.splits)
qed

lemma obj_set_fresh: "k \<notin> fst ` set acc \<Longrightarrow> obj_set acc k v = acc @ [(k, v)]"
  by (induction acc k v rule: obj_set.induct) auto

lemma obj_spread_fresh:
  "distinct (map fst b) \<Longrightarrow> fst ` set a \<inter> fst ` set b = {} \<Longrightarrow> obj_spread a b = a @ b"
  unfolding obj_spread_def
proof (induction b arbitrary: a)
  case Nil show ?case by simp
next
  case (Cons x xs)
  have f: "fst x \<notin> fst ` set a" using Cons.prems(2) by auto
  have "fst ` set (a @ [(fst x, snd x)]) \<inter> fst ` set xs = {}"
    using Cons.prems by (auto simp: image_iff)
  then have "foldl (\<lambda>acc kv. obj_set acc (fst kv) (snd kv)) (a @ [(fst x, snd x)]) xs
        = (a @ [(fst x, snd x)]) @ xs"
    using Cons.prems(1) by (intro Cons.IH) simp_all
  then show ?case by (simp add: obj_set_fresh[OF f])
qed

section \<open>Properties of \<^verbatim>\<open>quoteLiteral\<close>\<close>

lemma sq_neq_bsl [simp]: "sq \<noteq> bsl" "bsl \<noteq> sq"
  by (simp_all add: sq_def bsl_def)

lemma quoteLiteral_loop_eq:
  "quoteLiteral_loop v (q, h) = (q @ quoted_body v, h \<or> bsl \<in> set v)"
proof (induction v arbitrary: q h)
  case Nil
  show ?case by (simp add: quoted_body_def)
next
  case (Cons c cs)
  show ?case
    by (cases "c = sq"; cases "c = bsl")
       (auto simp: quoteLiteral_step_def Cons.IH quoted_body_def doubled_def)
qed

lemma quoteLiteral_eq:
  "quoteLiteral v =
     (if bsl \<in> set v then ''E'' else []) @ [sq] @ quoted_body v @ [sq]"
  by (simp add: quoteLiteral_def quoteLiteral_loop_eq Let_def)

text \<open>
  Claim C1. For every input string, \<^verbatim>\<open>quoteLiteral\<close> returns the string between two
  single quotes, with every single quote and every backslash of the input doubled; the
  result starts with \<open>E\<close> exactly when the input holds a backslash. In particular
  \<^verbatim>\<open>quoteLiteral("O'Brien")\<close> is \<^verbatim>\<open>'O''Brien'\<close>, and for an input with a backslash the
  result starts with \<^verbatim>\<open>E'\<close> and holds that backslash twice.
\<close>

theorem quoteLiteral_spec:
  "quoteLiteral v = (if bsl \<in> set v then ''E'' else []) @ [sq] @ quoted_body v @ [sq]
   \<and> ((\<exists>r. quoteLiteral v = CHR ''E'' # r) \<longleftrightarrow> bsl \<in> set v)
   \<and> quoteLiteral (''O'' @ [sq] @ ''Brien'') = [sq] @ ''O'' @ [sq, sq] @ ''Brien'' @ [sq]
   \<and> (\<forall>a b. v = a @ [bsl] @ b \<longrightarrow>
         quoteLiteral v = ''E'' @ [sq] @ quoted_body a @ [bsl, bsl] @ quoted_body b @ [sq])"
proof (intro conjI allI impI)
  show "quoteLiteral v = (if bsl \<in> set v then ''E'' else []) @ [sq] @ quoted_body v @ [sq]"
    by (rule quoteLiteral_eq)
  show "(\<exists>r. quoteLiteral v = CHR ''E'' # r) \<longleftrightarrow> bsl \<in> set v"
    by (simp add: quoteLiteral_eq sq_def)
  show "quoteLiteral (''O'' @ [sq] @ ''Brien'') = [sq] @ ''O'' @ [sq, sq] @ ''Brien'' @ [sq]"
    by (simp add: quoteLiteral_eq quoted_body_def doubled_def sq_def bsl_def)
next
  fix a b
  assume "v = a @ [bsl] @ b"
  then show "quoteLiteral v = ''E'' @ [sq] @ quoted_body a @ [bsl, bsl] @ quoted_body b @ [sq]"
    by (simp add: quoteLiteral_eq quoted_body_def doubled_def)
qed

theorem quoteLiteral_spec_witness:
  "quoteLiteral (''a'' @ [bsl] @ ''b'') = ''E'' @ [sq] @ ''a'' @ [bsl, bsl] @ ''b'' @ [sq]"
  using quoteLiteral_spec [of "''a'' @ [bsl] @ ''b''"]
  by (simp add: quoted_body_def doubled_def sq_def bsl_def)

section \<open>Properties of \<^verbatim>\<open>defaultValueInformationSchema\<close>\<close>

lemma bracket_group_chars:
  assumes "bracket_group r = Some r'"
  shows "\<exists>g. r = g @ r' \<and> (\<forall>x\<in>set g. cast_char x)"
proof -
  from assms obtain t where r: "r = CHR ''['' # t"
    by (auto simp: bracket_group_def split: list.splits if_splits)
  from assms r have d: "dropWhile is_digit t = CHR '']'' # r'"
    by (auto simp: bracket_group_def split: list.splits if_splits)
  have "t = takeWhile is_digit t @ dropWhile is_digit t" by simp
  with d have t: "t = takeWhile is_digit t @ CHR '']'' # r'" by simp
  let ?g = "CHR ''['' # takeWhile is_digit t @ [CHR '']'']"
  have "r = ?g @ r'" using r t by simp
  moreover have "\<forall>x\<in>set ?g. cast_char x"
    by (auto simp: cast_char_def dest: set_takeWhileD)
  ultimately show ?thesis by blast
qed

lemma cast_tail_chars: "cast_tail r \<Longrightarrow> \<forall>x\<in>set r. cast_char x"
  unfolding cast_tail_def
  by (auto split: option.splits dest!: bracket_group_chars)

lemma is_cast_chars:
  assumes "is_cast s"
  shows "\<forall>x\<in>set (drop 2 s). cast_char x"
proof -
  let ?d = "drop 2 s"
  have "?d = takeWhile is_letter_or_space ?d @ dropWhile is_letter_or_space ?d" by simp
  moreover have "\<forall>x\<in>set (takeWhile is_letter_or_space ?d). cast_char x"
    by (auto simp: cast_char_def dest: set_takeWhileD)
  moreover have "\<forall>x\<in>set (dropWhile is_letter_or_space ?d). cast_char x"
    using assms by (intro cast_tail_chars) (simp add: is_cast_def)
  ultimately show ?thesis
    by (metis Un_iff set_append)
qed

lemma cast_char_not_colon: "\<not> cast_char (CHR '':'')"
  by (simp add: cast_char_def is_letter_or_space_def is_digit_def)

lemma cast_char_not_paren: "\<not> cast_char (CHR '')'')"
  by (simp add: cast_char_def is_letter_or_space_def is_digit_def)

lemma is_cast_shape: "is_cast s \<Longrightarrow> \<exists>t. s = CHR '':'' # CHR '':'' # t \<and> (\<forall>x\<in>set t. cast_char x)"
proof -
  assume a: "is_cast s"
  then have "take 2 s = ''::''" by (simp add: is_cast_def)
  then obtain t where s: "s = CHR '':'' # CHR '':'' # t"
    by (cases s; cases "tl s") (auto simp: take_Suc_conv_app_nth)
  with is_cast_chars[OF a] show ?thesis by simp
qed

lemma not_is_cast_before:
  assumes "is_cast c" "p \<noteq> []"
  shows "\<not> is_cast (p @ c)"
proof
  assume "is_cast (p @ c)"
  then obtain t where t: "p @ c = CHR '':'' # CHR '':'' # t" "\<forall>x\<in>set t. cast_char x"
    using is_cast_shape by blast
  from assms(1) obtain u where u: "c = CHR '':'' # CHR '':'' # u"
    using is_cast_shape by blast
  from assms(2) obtain a q where p: "p = a # q" by (cases p) auto
  have "CHR '':'' \<in> set t"
  proof (cases q)
    case Nil
    with t p u show ?thesis by auto
  next
    case (Cons b q')
    with t p u have "t = q' @ CHR '':'' # CHR '':'' # u" by simp
    then show ?thesis by simp
  qed
  with t(2) cast_char_not_colon show False by blast
qed

lemma strip_cast_terminal: "is_cast c \<Longrightarrow> strip_cast (pre @ c) = pre"
proof (induction pre)
  case Nil
  then obtain t where "c = CHR '':'' # CHR '':'' # t" using is_cast_shape by blast
  with Nil show ?case by simp
next
  case (Cons p ps)
  have "\<not> is_cast ((p # ps) @ c)" using Cons.prems by (intro not_is_cast_before) simp_all
  with Cons show ?case by simp
qed

lemma strip_cast_suffix:
  "strip_cast v = v \<or> (\<exists>c. is_cast c \<and> v = strip_cast v @ c)"
proof (induction v)
  case Nil show ?case by simp
next
  case (Cons a v)
  then show ?case by (cases "is_cast (a # v)") auto
qed

lemma strip_cast_paren: "strip_cast (a @ '')'') = a @ '')''"
proof -
  let ?v = "a @ '')''"
  from strip_cast_suffix[of ?v] show ?thesis
  proof
    assume "\<exists>c. is_cast c \<and> ?v = strip_cast ?v @ c"
    then obtain c where c: "is_cast c" "?v = strip_cast ?v @ c" by blast
    then obtain t where t: "c = CHR '':'' # CHR '':'' # t" "\<forall>x\<in>set t. cast_char x"
      using is_cast_shape by blast
    have "last ?v = CHR '')''" by simp
    moreover have "last ?v = last c" using c(2) t(1) by (metis last_appendR list.distinct(1))
    ultimately have "last c = CHR '')''" by simp
    with t have "t \<noteq> [] \<and> last t = CHR '')'' \<or> t = []" by auto
    moreover have "t \<noteq> []" using c(1) t(1) by (auto simp: is_cast_def)
    ultimately have "CHR '')'' \<in> set t" by (metis last_in_set)
    with t(2) cast_char_not_paren show ?thesis by blast
  qed simp
qed

lemma nextval_open_nth: "i < 8 \<Longrightarrow> nextval_open ! i \<noteq> sq"
proof -
  assume "i < 8"
  then have "i \<in> {0,1,2,3,4,5,6,7}" by auto
  then show ?thesis by (auto simp: nextval_open_def sq_def)
qed

lemma take9_sq: "take 9 s = nextval_open \<Longrightarrow> 8 < length s \<and> s ! 8 = sq"
proof -
  assume a: "take 9 s = nextval_open"
  have l: "length (take 9 s) = 9" by (simp add: a nextval_open_def)
  then have "8 < length s" by simp
  moreover have "s ! 8 = take 9 s ! 8" by simp
  ultimately show ?thesis using a by (simp add: nextval_open_def)
qed

lemma public_nextval_insert:
  "sq \<notin> set pre \<Longrightarrow> CHR ''.'' \<notin> set tail \<Longrightarrow>
   public_nextval (pre @ nextval_open @ tail) = pre @ nextval_open @ ''public.'' @ tail"
proof (induction pre)
  case Nil
  have "nextval_open @ tail = CHR ''n'' # (''extval('' @ [sq] @ tail)" by (simp add: nextval_open_def)
  moreover have "take 9 (nextval_open @ tail) = nextval_open" "drop 9 (nextval_open @ tail) = tail"
    by (simp_all add: nextval_open_def)
  ultimately show ?case using Nil by (metis append_Nil public_nextval.simps(2))
next
  case (Cons p ps)
  let ?s = "(p # ps) @ nextval_open @ tail"
  have "take 9 ?s \<noteq> nextval_open"
  proof
    assume "take 9 ?s = nextval_open"
    then have e: "?s ! 8 = sq" using take9_sq by blast
    show False
    proof (cases "8 < length (p # ps)")
      case True
      then have "?s ! 8 = (p # ps) ! 8" by (simp add: nth_append del: nth_Cons_numeral)
      moreover have "(p # ps) ! 8 \<in> set (p # ps)" using True nth_mem by blast
      ultimately show False using e Cons.prems(1) by metis
    next
      case False
      define k where "k = 8 - length (p # ps)"
      have k: "k < 8" by (simp add: k_def)
      from False have "?s ! 8 = (nextval_open @ tail) ! k"
        unfolding k_def by (simp add: nth_append del: nth_Cons_numeral)
      moreover have "length nextval_open = 9" by (simp add: nextval_open_def)
      ultimately have "?s ! 8 = nextval_open ! k"
        using k by (simp add: nth_append)
      with e nextval_open_nth[OF k] show False by metis
    qed
  qed
  then have "public_nextval ?s = p # public_nextval (ps @ nextval_open @ tail)"
    by (simp del: take_Cons_numeral drop_Cons_numeral)
  with Cons show ?case by simp
qed

lemma public_nextval_unchanged:
  "(\<forall>pre tail. v = pre @ nextval_open @ tail \<longrightarrow> CHR ''.'' \<in> set tail) \<Longrightarrow> public_nextval v = v"
proof (induction v)
  case Nil show ?case by simp
next
  case (Cons c cs)
  have 1: "\<not> (take 9 (c # cs) = nextval_open \<and> CHR ''.'' \<notin> set (drop 9 (c # cs)))"
  proof
    assume a: "take 9 (c # cs) = nextval_open \<and> CHR ''.'' \<notin> set (drop 9 (c # cs))"
    have "c # cs = [] @ nextval_open @ drop 9 (c # cs)"
      using a by (metis append_Nil append_take_drop_id)
    with Cons.prems a show False by blast
  qed
  have 2: "\<forall>pre tail. cs = pre @ nextval_open @ tail \<longrightarrow> CHR ''.'' \<in> set tail"
  proof (intro allI impI)
    fix pre tail assume "cs = pre @ nextval_open @ tail"
    then have "c # cs = (c # pre) @ nextval_open @ tail" by simp
    with Cons.prems show "CHR ''.'' \<in> set tail" by blast
  qed
  have "public_nextval (c # cs) = c # public_nextval cs"
    by (simp only: public_nextval.simps 1 if_False)
  with Cons.IH[OF 2] show ?case by simp
qed

text \<open>
  Claim C6. \<^verbatim>\<open>defaultValueInformationSchema\<close> inserts the schema \<^verbatim>\<open>public.\<close> into a
  \<^verbatim>\<open>nextval('...')\<close> name that lacks a schema qualifier: it maps
  \<^verbatim>\<open>nextval('seq'::regclass)\<close> to \<^verbatim>\<open>nextval('public.seq'::regclass)\<close>. The lookahead of the
  code, \<^verbatim>\<open>(?=[^.]*$)\<close>, looks for a \<^verbatim>\<open>.\<close> in the whole rest of the expression and not in
  the name alone: in \<^verbatim>\<open>(nextval('seq'::regclass) || '.txt'::text)\<close> the name \<^verbatim>\<open>seq\<close> has no
  schema, a \<^verbatim>\<open>.\<close> comes later, and the expression is returned as it is.
\<close>

theorem defaultValueInformationSchema_lookahead:
  "defaultValueInformationSchema (JStr (nextval_open @ ''seq'' @ [sq] @ ''::regclass)''))
     = JStr (nextval_open @ ''public.seq'' @ [sq] @ ''::regclass)'')
   \<and> defaultValueInformationSchema
        (JStr (''('' @ nextval_open @ ''seq'' @ [sq] @ ''::regclass) || ''
                 @ [sq] @ ''.txt'' @ [sq] @ ''::text)''))
     = JStr (''('' @ nextval_open @ ''seq'' @ [sq] @ ''::regclass) || ''
               @ [sq] @ ''.txt'' @ [sq] @ ''::text)'')"
  by code_simp

section \<open>Properties of the cleanable policy\<close>

lemma encryptedName_of: "(l, t) \<in> set encryptedNamesListExtensions \<Longrightarrow> encryptedName l = t"
  by (auto simp: encryptedNamesListExtensions_def encryptedName_def)

lemma encryptedName_inj:
  "(l, t) \<in> set encryptedNamesListExtensions \<Longrightarrow> encryptedName l' = t \<Longrightarrow> l' = l"
  by (auto simp: encryptedNamesListExtensions_def encryptedName_def split: if_splits)

lemma map_of_encrypted:
  assumes "(l, t) \<in> set encryptedNamesListExtensions" "distinct (map fst ob)"
  shows "map_of (rev (map (\<lambda>kv. (encryptedName (fst kv), snd kv)) ob)) t = map_of ob l"
  using assms(2)
proof (induction ob)
  case Nil show ?case by simp
next
  case (Cons x xs)
  show ?case
  proof (cases "fst x = l")
    case True
    with Cons.prems have "map_of xs l = None" by (auto simp: map_of_eq_None_iff)
    with Cons True encryptedName_of[OF assms(1)] show ?thesis
      by (cases x) (simp add: map_add_def)
  next
    case False
    then have "encryptedName (fst x) \<noteq> t" using encryptedName_inj[OF assms(1)] by blast
    with Cons False show ?thesis
      by (cases x) (simp add: map_add_def split: option.splits)
  qed
qed

lemma normalizeCleanableObject_get:
  assumes "(l, t) \<in> set encryptedNamesListExtensions" "distinct (map fst ob)"
  shows "obj_get (normalizeCleanableObject (JObj ob)) t =
           (if l \<in> fst ` set ob then obj_get ob l else obj_get cleanableDefaults t)"
proof -
  let ?f = "\<lambda>acc kv. obj_set acc (encryptedName (fst kv)) (snd kv)"
  let ?e = "foldl ?f [] ob"
  have d: "distinct (map fst ?e)" by (rule distinct_foldl_obj_set) simp
  have "map_of (rev ?e) = map_of ?e" using d by (rule map_of_rev_distinct)
  then have "map_of (rev ?e) t = map_of ob l"
    using map_of_encrypted[OF assms] by (simp add: map_of_foldl_obj_set)
  then have "map_of (obj_spread cleanableDefaults ?e) t =
      (case map_of ob l of None \<Rightarrow> map_of cleanableDefaults t | Some v \<Rightarrow> Some v)"
    by (simp add: map_of_obj_spread map_add_def)
  moreover have "(l \<in> fst ` set ob) = (map_of ob l \<noteq> None)"
    by (simp add: map_of_eq_None_iff)
  ultimately show ?thesis
    by (auto simp: normalizeCleanableObject_def obj_get_def Let_def split: option.splits)
qed

text \<open>
  Claim C9, as amended. The defaults of the cleanable policy give \<open>primaryKey\<close> true and
  \<open>foreignKey\<close>, \<open>unique\<close> and \<open>check\<close> false; they have no entry for \<open>index\<close>, which reads
  as \<open>undefined\<close>. When the caller supplies no cleanable object (or a falsy value), the
  result is exactly these defaults. When the caller supplies an object, each variant
  takes the value given under its list name (\<open>primaryKeys\<close>, \<open>indexes\<close>, \<open>foreignKeys\<close>,
  \<open>checks\<close>, \<open>unique\<close>) when there is one, and its default otherwise.
\<close>

theorem normalizeCleanableObject_amended:
  "(\<not> truthy object \<longrightarrow> normalizeCleanableObject object = cleanableDefaults)
   \<and> obj_get cleanableDefaults ''primaryKey'' = JBool True
   \<and> obj_get cleanableDefaults ''foreignKey'' = JBool False
   \<and> obj_get cleanableDefaults ''unique'' = JBool False
   \<and> obj_get cleanableDefaults ''check'' = JBool False
   \<and> obj_get cleanableDefaults ''index'' = JUndefined
   \<and> (distinct (map fst ob) \<and> (l, t) \<in> set encryptedNamesListExtensions \<longrightarrow>
        obj_get (normalizeCleanableObject (JObj ob)) t =
          (if l \<in> fst ` set ob then obj_get ob l else obj_get cleanableDefaults t))"
proof (intro conjI impI)
  assume "\<not> truthy object"
  then show "normalizeCleanableObject object = cleanableDefaults"
    by (simp add: normalizeCleanableObject_def)
next
  assume "distinct (map fst ob) \<and> (l, t) \<in> set encryptedNamesListExtensions"
  then show "obj_get (normalizeCleanableObject (JObj ob)) t =
          (if l \<in> fst ` set ob then obj_get ob l else obj_get cleanableDefaults t)"
    using normalizeCleanableObject_get by blast
qed (simp_all add: cleanableDefaults_def obj_get_def)

theorem normalizeCleanableObject_amended_witness:
  "normalizeCleanableObject JUndefined = cleanableDefaults
   \<and> obj_get (normalizeCleanableObject
        (JObj [(''indexes'', JBool True), (''primaryKeys'', JBool False)])) ''primaryKey''
       = JBool False
   \<and> obj_get (normalizeCleanableObject
        (JObj [(''indexes'', JBool True), (''primaryKeys'', JBool False)])) ''index''
       = JBool True
   \<and> obj_get (normalizeCleanableObject
        (JObj [(''indexes'', JBool True), (''primaryKeys'', JBool False)])) ''unique''
       = JBool False"
  using normalizeCleanableObject_amended
      [of JUndefined "[(''indexes'', JBool True), (''primaryKeys'', JBool False)]"
        "''primaryKeys''" "''primaryKey''"]
    normalizeCleanableObject_amended
      [of JUndefined "[(''indexes'', JBool True), (''primaryKeys'', JBool False)]"
        "''indexes''" "''index''"]
    normalizeCleanableObject_amended
      [of JUndefined "[(''indexes'', JBool True), (''primaryKeys'', JBool False)]"
        "''unique''" "''unique''"]
  by (simp add: encryptedNamesListExtensions_def obj_get_def)

text \<open>
  Claim C9 as it is written fails for \<open>index\<close>: with no cleanable object, the policy
  holds no boolean for it.
\<close>

theorem normalizeCleanableObject_counterexample:
  "obj_get (normalizeCleanableObject JUndefined) ''index'' = JUndefined
   \<and> obj_get (normalizeCleanableObject JUndefined) ''index'' \<noteq> JBool False"
  by (simp add: normalizeCleanableObject_def cleanableDefaults_def obj_get_def)

section \<open>Properties of \<^verbatim>\<open>encodeValue\<close> and \<^verbatim>\<open>decodeValue\<close>\<close>

lemma quoted_body_plain: "plain s \<Longrightarrow> quoted_body s = s"
  by (induction s) (auto simp: plain_def quoted_body_def doubled_def)

lemma quoteLiteral_plain: "plain s \<Longrightarrow> quoteLiteral s = [sq] @ s @ [sq]"
proof -
  assume p: "plain s"
  then have "bsl \<notin> set s" by (auto simp: plain_def list_ex_iff)
  with p show ?thesis by (simp add: quoteLiteral_eq quoted_body_plain)
qed

lemma bracketsContent_quoted: "plain s \<Longrightarrow> bracketsContent ([sq] @ s @ [sq]) = Some s"
  by (auto simp: bracketsContent_def plain_def list_ex_iff)

lemma decodeValue_encodeValue_string:
  assumes "plain s" "\<not> ends_with_sql s"
    and "getTypeGroup G t \<notin> {Some ''JSON'', Some ''INTEGER'', Some ''BOOLEAN''}"
  shows "decodeValue G P (encodeValue S (JStr s)) t = Inr (JStr s)"
  using assms
  by (simp add: decodeValue_def encodeValue_def quoteLiteral_plain Let_def
      bracketsContent_quoted[simplified])

lemma decodeValue_encodeValue_object:
  assumes "plain (S (JObj ob))" "P (S (JObj ob)) = Inr (JObj ob)"
    and "getTypeGroup G t = Some ''JSON''"
  shows "decodeValue G P (encodeValue S (JObj ob)) t = Inr (JObj ob)"
  using assms
  by (simp add: decodeValue_def encodeValue_def quoteLiteral_plain Let_def
      bracketsContent_quoted[simplified])

text \<open>
  Claim C2, as amended. Decoding an encoded value gives the value back: for a number
  and for a boolean with any type; for a JSON object with a type of the JSON group, when
  \<open>JSON.parse\<close> inverts \<open>JSON.stringify\<close> on it and its serialization holds no single
  quote, no backslash and no line terminator; for a string with a type outside the JSON,
  INTEGER and BOOLEAN groups, when the string does not end with the raw-expression suffix
  and holds no backslash, no single quote and no line terminator.
\<close>

theorem decodeValue_encodeValue_amended:
  "decodeValue G P (encodeValue S (JNum n)) t = Inr (JNum n)
   \<and> decodeValue G P (encodeValue S (JBool b)) t = Inr (JBool b)
   \<and> (getTypeGroup G t = Some ''JSON'' \<and> P (S (JObj ob)) = Inr (JObj ob)
        \<and> plain (S (JObj ob)) \<longrightarrow>
        decodeValue G P (encodeValue S (JObj ob)) t = Inr (JObj ob))
   \<and> (getTypeGroup G t \<notin> {Some ''JSON'', Some ''INTEGER'', Some ''BOOLEAN''}
        \<and> \<not> ends_with_sql s \<and> plain s \<longrightarrow>
        decodeValue G P (encodeValue S (JStr s)) t = Inr (JStr s))"
proof (intro conjI impI)
  show "decodeValue G P (encodeValue S (JNum n)) t = Inr (JNum n)"
    by (simp add: decodeValue_def encodeValue_def)
  show "decodeValue G P (encodeValue S (JBool b)) t = Inr (JBool b)"
    by (simp add: decodeValue_def encodeValue_def)
next
  assume "getTypeGroup G t = Some ''JSON'' \<and> P (S (JObj ob)) = Inr (JObj ob)
        \<and> plain (S (JObj ob))"
  then show "decodeValue G P (encodeValue S (JObj ob)) t = Inr (JObj ob)"
    by (simp add: decodeValue_encodeValue_object)
next
  assume "getTypeGroup G t \<notin> {Some ''JSON'', Some ''INTEGER'', Some ''BOOLEAN''}
        \<and> \<not> ends_with_sql s \<and> plain s"
  then show "decodeValue G P (encodeValue S (JStr s)) t = Inr (JStr s)"
    by (intro decodeValue_encodeValue_string) simp_all
qed

theorem decodeValue_encodeValue_amended_witness:
  "decodeValue example_groups example_parse
     (encodeValue example_stringify (JObj [])) ''jsonb[]'' = Inr (JObj [])
   \<and> decodeValue example_groups example_parse
     (encodeValue example_stringify (JStr ''abc'')) ''varchar(255)'' = Inr (JStr ''abc'')"
proof -
  have g1: "getTypeGroup example_groups ''jsonb[]'' = Some ''JSON''"
    by code_simp
  have g2: "getTypeGroup example_groups ''varchar(255)''
      \<notin> {Some ''JSON'', Some ''INTEGER'', Some ''BOOLEAN''}"
    by code_simp
  have p1: "example_parse (example_stringify (JObj [])) = Inr (JObj [])"
    by (simp add: example_parse_def example_stringify_def)
  have p2: "plain (example_stringify (JObj []))"
    by (simp add: plain_def example_stringify_def sq_def bsl_def is_line_terminator_def)
  have s1: "\<not> ends_with_sql ''abc''"
    by (simp add: ends_with_sql_def sql_suffix_def)
  have s2: "plain ''abc''"
    by (simp add: plain_def sq_def bsl_def is_line_terminator_def)
  show ?thesis
    using decodeValue_encodeValue_amended
        [of example_groups example_parse example_stringify 0 "''jsonb[]''" True "[]" "''abc''"]
      decodeValue_encodeValue_amended
        [of example_groups example_parse example_stringify 0 "''varchar(255)''" True "[]" "''abc''"]
      g1 g2 p1 p2 s1 s2
    by simp
qed

text \<open>
  Claim C2 as it is written fails for a string with a single quote: it has no backslash
  and does not end with the suffix, and \<^verbatim>\<open>O'Brien\<close> comes back as \<^verbatim>\<open>O''Brien\<close>, since
  \<open>decodeValue\<close> does not undo the doubling.
\<close>

theorem decodeValue_encodeValue_counterexample:
  "decodeValue example_groups example_parse
     (encodeValue example_stringify (JStr (''O'' @ [sq] @ ''Brien''))) ''text''
     = Inr (JStr (''O'' @ [sq, sq] @ ''Brien''))
   \<and> decodeValue example_groups example_parse
     (encodeValue example_stringify (JStr (''O'' @ [sq] @ ''Brien''))) ''text''
     \<noteq> Inr (JStr (''O'' @ [sq] @ ''Brien''))
   \<and> \<not> ends_with_sql (''O'' @ [sq] @ ''Brien'')
   \<and> bsl \<notin> set (''O'' @ [sq] @ ''Brien'')
   \<and> getTypeGroup example_groups ''text'' = None"
  by code_simp

section \<open>Properties of the sequence differ\<close>

lemma getDifference_fold:
  "distinct attrs \<Longrightarrow> set attrs \<inter> fst ` set acc = {} \<Longrightarrow>
   foldl (\<lambda>acc key. if js_String big (obj_get a key) \<noteq> js_String big (obj_get b key)
                      then obj_set acc key (obj_get a key) else acc) acc attrs
     = acc @ map (\<lambda>key. (key, obj_get a key)) (changed big attrs a b)"
proof (induction attrs arbitrary: acc)
  case Nil show ?case by (simp add: changed_def)
next
  case (Cons k ks)
  have f: "k \<notin> fst ` set acc" using Cons.prems(2) by auto
  show ?case
  proof (cases "js_String big (obj_get a k) \<noteq> js_String big (obj_get b k)")
    case True
    have "set ks \<inter> fst ` set (acc @ [(k, obj_get a k)]) = {}"
      using Cons.prems by auto
    with Cons.IH[of "acc @ [(k, obj_get a k)]"] Cons.prems(1) True show ?thesis
      by (simp add: obj_set_fresh[OF f] changed_def)
  next
    case False
    have "set ks \<inter> fst ` set acc = {}" using Cons.prems(2) by auto
    with Cons.IH[of acc] Cons.prems(1) False show ?thesis
      by (simp add: changed_def)
  qed
qed

lemma getDifference_eq:
  "distinct attrs \<Longrightarrow>
   getDifference big attrs a b = map (\<lambda>key. (key, obj_get a key)) (changed big attrs a b)"
  using getDifference_fold[of attrs "[]" big a b] by (simp add: getDifference_def)

lemma obj_get_map:
  "obj_get (map (\<lambda>key. (key, f key)) ks) k = (if k \<in> set ks then f k else JUndefined)"
  by (induction ks) (auto simp: obj_get_def)

lemma distinct_changed: "distinct attrs \<Longrightarrow> distinct (changed big attrs a b)"
  by (simp add: changed_def)

lemma changed_subset: "set (changed big attrs a b) \<subseteq> set attrs"
  by (auto simp: changed_def)

lemma clause_attribute:
  "key \<in> sequence_attributes \<Longrightarrow> \<exists>c. clause big d key v = [c]"
  by (auto simp: sequence_attributes_def clause_def)


lemma buildSql_alter:
  assumes "distinct (map fst diff)" "''action'' \<notin> fst ` set diff"
  shows "buildSql big sqn (obj_spread [(''action'', JStr ''alter'')] diff)
           = alter_statement sqn
               (concat (map (\<lambda>kv. clause big (DEFAULTS sqn) (fst kv) (snd kv)) diff))"
proof -
  have sp: "obj_spread [(''action'', JStr ''alter'')] diff = (''action'', JStr ''alter'') # diff"
    using assms by (subst obj_spread_fresh) auto
  have fl: "filter (\<lambda>kv. fst kv \<noteq> ''action'') diff = diff"
    using assms(2) by (induction diff) auto
  show ?thesis
    by (simp add: sp buildSql_def buildSql_chunks_def fl alter_statement_def Sql_create_def
        obj_get_def Let_def)
qed

lemma action_not_attribute: "''action'' \<notin> sequence_attributes" "''current'' \<notin> sequence_attributes"
  by (simp_all add: sequence_attributes_def)

lemma concat_clause_map:
  "concat (map (\<lambda>kv. clause big d (fst kv) (snd kv)) (map (\<lambda>key. (key, f key)) ks))
     = concat (map (\<lambda>key. clause big d key (f key)) ks)"
  by (induction ks) simp_all

lemma getSqlChanges_alter:
  assumes nf: "\<not> truthy (forceCreate sqn)"
    and st: "structures (seq_fullName sqn) = Some structure"
    and di: "distinct (ATTRIBUTES sqn)"
    and su: "set (ATTRIBUTES sqn) \<subseteq> sequence_attributes"
  shows "getSqlChanges big sqn (Inr correct) structures
           = Inr (alter_statement sqn
                    (changed_clauses big sqn structure @ restart_clause big sqn structure correct))"
    and "\<not> needs_check big sqn structure \<Longrightarrow>
         getSqlChanges big sqn check structures
           = Inr (alter_statement sqn (changed_clauses big sqn structure))"
    and "needs_check big sqn structure \<Longrightarrow> getSqlChanges big sqn (Inl e) structures = Inl e"
proof -
  let ?D = "changed big (ATTRIBUTES sqn) (properties sqn) structure"
  let ?diff = "map (\<lambda>key. (key, obj_get (properties sqn) key)) ?D"
  have d: "getDifference big (ATTRIBUTES sqn) (properties sqn) structure = ?diff"
    using di by (rule getDifference_eq)
  have keys: "fst ` set ?diff = set ?D" by (auto simp: image_iff)
  have sub: "set ?D \<subseteq> sequence_attributes" using su changed_subset by blast
  have dd: "distinct (map fst ?diff)"
    using distinct_changed[OF di] by (simp add: comp_def)
  have na: "''action'' \<notin> fst ` set ?diff" "''current'' \<notin> fst ` set ?diff"
    using sub action_not_attribute unfolding keys by blast+
  have nc: "(isExist (obj_get ?diff ''min'') \<or> isExist (obj_get ?diff ''max''))
              = needs_check big sqn structure"
    by (auto simp: obj_get_map needs_check_def)
  have b1: "buildSql big sqn (obj_spread [(''action'', JStr ''alter'')] ?diff)
              = alter_statement sqn (changed_clauses big sqn structure)"
    using buildSql_alter[OF dd na(1), of big sqn] by (simp add: changed_clauses_def comp_def)
  let ?diff' = "obj_set ?diff ''current'' (obj_get (properties sqn) ''min'')"
  have s': "?diff' = ?diff @ [(''current'', obj_get (properties sqn) ''min'')]"
    using na(2) by (rule obj_set_fresh)
  have dd': "distinct (map fst ?diff')" using dd na(2) unfolding s' by (auto simp: image_iff)
  have na': "''action'' \<notin> fst ` set ?diff'" using na(1) unfolding s' by (auto simp: image_iff)
  have b2: "buildSql big sqn (obj_spread [(''action'', JStr ''alter'')] ?diff')
              = alter_statement sqn (changed_clauses big sqn structure
                  @ clause big (DEFAULTS sqn) ''current'' (obj_get (properties sqn) ''min''))"
    using buildSql_alter[OF dd' na', of big sqn] unfolding s'
    by (simp add: changed_clauses_def comp_def)
  have cl: "clause big (DEFAULTS sqn) ''current'' (obj_get (properties sqn) ''min'')
      = (if isExist (obj_get (properties sqn) ''min'')
         then [''restart with '' @ js_String big (obj_get (properties sqn) ''min'')] else [])"
    by (simp add: clause_def)
  show "getSqlChanges big sqn (Inr correct) structures
           = Inr (alter_statement sqn
                    (changed_clauses big sqn structure @ restart_clause big sqn structure correct))"
    using nf st nc b1 b2
    by (simp add: getSqlChanges_def d Let_def restart_clause_def cl)
  show "\<not> needs_check big sqn structure \<Longrightarrow>
         getSqlChanges big sqn check structures
           = Inr (alter_statement sqn (changed_clauses big sqn structure))"
    using nf st nc b1 by (simp add: getSqlChanges_def d Let_def)
  show "needs_check big sqn structure \<Longrightarrow> getSqlChanges big sqn (Inl e) structures = Inl e"
    using nf st nc by (simp add: getSqlChanges_def d Let_def)
qed

lemma length_changed_clauses:
  assumes "set (ATTRIBUTES sqn) \<subseteq> sequence_attributes"
  shows "length (changed_clauses big sqn structure)
           = length (changed big (ATTRIBUTES sqn) (properties sqn) structure)"
proof -
  have "\<And>ks. set ks \<subseteq> sequence_attributes \<Longrightarrow>
      length (concat (map (\<lambda>key. clause big (DEFAULTS sqn) key (obj_get (properties sqn) key)) ks))
        = length ks"
  proof -
    fix ks show "set ks \<subseteq> sequence_attributes \<Longrightarrow>
      length (concat (map (\<lambda>key. clause big (DEFAULTS sqn) key (obj_get (properties sqn) key)) ks))
        = length ks"
    proof (induction ks)
      case Nil show ?case by simp
    next
      case (Cons k ks)
      then have "k \<in> sequence_attributes" by simp
      then obtain c where "clause big (DEFAULTS sqn) k (obj_get (properties sqn) k) = [c]"
        using clause_attribute by blast
      with Cons show ?case by simp
    qed
  qed
  moreover have "set (changed big (ATTRIBUTES sqn) (properties sqn) structure) \<subseteq> sequence_attributes"
    using assms changed_subset by blast
  ultimately show ?thesis by (simp add: changed_clauses_def)
qed

lemma no_change_no_check:
  "changed big (ATTRIBUTES sqn) (properties sqn) structure = [] \<Longrightarrow> \<not> needs_check big sqn structure"
  by (simp add: needs_check_def)

text \<open>
  Claim C5, as amended. For a desired sequence that the snapshot has, with force unset,
  the differ emits one \<open>ALTER SEQUENCE\<close> whose clauses are exactly one clause per attribute
  whose desired value differs from the observed one under string comparison, in the order
  of the attribute list, followed by one clause \<^verbatim>\<open>restart with <min>\<close> exactly when the
  desired \<open>min\<close> or \<open>max\<close> differs and is set, the correctness check answers that the
  current value is out of bounds, and the desired \<open>min\<close> is set. When neither \<open>min\<close> nor
  \<open>max\<close> asks for the check, the clauses are the changed attributes' alone, whatever the
  query would answer. When no attribute differs, nothing is emitted. Values are compared
  and written as the language prints them: a number beyond \<open>2\<^sup>5\<^sup>3\<close> as the double it is,
  which \<open>big\<close> stands for, so that the statement holds for every \<open>big\<close>.
\<close>

theorem getSqlChanges_amended:
  "\<not> truthy (forceCreate sqn) \<and> structures (seq_fullName sqn) = Some structure
   \<and> distinct (ATTRIBUTES sqn) \<and> set (ATTRIBUTES sqn) \<subseteq> sequence_attributes \<longrightarrow>
     getSqlChanges big sqn (Inr correct) structures
       = Inr (alter_statement sqn
                (changed_clauses big sqn structure @ restart_clause big sqn structure correct))
     \<and> (\<not> needs_check big sqn structure \<longrightarrow>
          getSqlChanges big sqn check structures
            = Inr (alter_statement sqn (changed_clauses big sqn structure)))
     \<and> (changed big (ATTRIBUTES sqn) (properties sqn) structure = [] \<longrightarrow>
          getSqlChanges big sqn check structures = Inr None)
     \<and> (\<forall>key\<in>set (changed big (ATTRIBUTES sqn) (properties sqn) structure).
          \<exists>c. clause big (DEFAULTS sqn) key (obj_get (properties sqn) key) = [c])
     \<and> length (changed_clauses big sqn structure)
          = length (changed big (ATTRIBUTES sqn) (properties sqn) structure)"
proof (intro impI, elim conjE, intro conjI impI ballI)
  assume nf: "\<not> truthy (forceCreate sqn)"
    and st: "structures (seq_fullName sqn) = Some structure"
    and di: "distinct (ATTRIBUTES sqn)"
    and su: "set (ATTRIBUTES sqn) \<subseteq> sequence_attributes"
  show "getSqlChanges big sqn (Inr correct) structures
       = Inr (alter_statement sqn
                (changed_clauses big sqn structure @ restart_clause big sqn structure correct))"
    using nf st di su by (rule getSqlChanges_alter(1))
  show "getSqlChanges big sqn check structures
            = Inr (alter_statement sqn (changed_clauses big sqn structure))"
    if "\<not> needs_check big sqn structure"
    using nf st di su that by (rule getSqlChanges_alter(2))
  show "getSqlChanges big sqn check structures = Inr None"
    if e: "changed big (ATTRIBUTES sqn) (properties sqn) structure = []"
  proof -
    have "changed_clauses big sqn structure = []" by (simp add: changed_clauses_def e)
    moreover have "getSqlChanges big sqn check structures
        = Inr (alter_statement sqn (changed_clauses big sqn structure))"
      using nf st di su no_change_no_check[OF e] by (rule getSqlChanges_alter(2))
    ultimately show ?thesis by (simp add: alter_statement_def)
  qed
  show "\<exists>c. clause big (DEFAULTS sqn) key (obj_get (properties sqn) key) = [c]"
    if "key \<in> set (changed big (ATTRIBUTES sqn) (properties sqn) structure)" for key
    using that su changed_subset clause_attribute by blast
  show "length (changed_clauses big sqn structure)
          = length (changed big (ATTRIBUTES sqn) (properties sqn) structure)"
    using su by (rule length_changed_clauses)
qed

theorem getSqlChanges_amended_witness:
  "getSqlChanges example_big
     (example_sequence (example_desired (JNum 1) (JStr ''9223372036854775807'') (JNum 5)))
     (Inr True) (example_structures example_observed)
     = Inr (Some [\<lparr>operation = ''alter sequence'',
                   value = ''alter sequence public.s increment 5;''\<rparr>])
   \<and> getSqlChanges example_big
     (example_sequence (example_desired (JNum 1) (JStr ''9223372036854775807'') (JNum 1)))
     (Inr True) (example_structures example_observed) = Inr None
   \<and> getSqlChanges example_big
     (example_sequence (example_desired (JNum 1) (JNum (2 ^ 63)) (JNum 1)))
     (Inr True) (example_structures example_observed)
     = Inr (Some [\<lparr>operation = ''alter sequence'',
                   value = ''alter sequence public.s maxvalue 9223372036854776000;''\<rparr>])"
proof -
  let ?s = "example_sequence (example_desired (JNum 1) (JStr ''9223372036854775807'') (JNum 5))"
  let ?n = "example_sequence (example_desired (JNum 1) (JStr ''9223372036854775807'') (JNum 1))"
  let ?b = "example_sequence (example_desired (JNum 1) (JNum (2 ^ 63)) (JNum 1))"
  let ?m = "example_structures example_observed"
  have h: "\<not> truthy (forceCreate ?s) \<and> ?m (seq_fullName ?s) = Some example_observed
      \<and> distinct (ATTRIBUTES ?s) \<and> set (ATTRIBUTES ?s) \<subseteq> sequence_attributes"
    by code_simp
  have e: "alter_statement ?s (changed_clauses example_big ?s example_observed
              @ restart_clause example_big ?s example_observed True)
      = Some [\<lparr>operation = ''alter sequence'',
                value = ''alter sequence public.s increment 5;''\<rparr>]"
    by code_simp
  have h': "\<not> truthy (forceCreate ?n) \<and> ?m (seq_fullName ?n) = Some example_observed
      \<and> distinct (ATTRIBUTES ?n) \<and> set (ATTRIBUTES ?n) \<subseteq> sequence_attributes"
    by code_simp
  have e': "changed example_big (ATTRIBUTES ?n) (properties ?n) example_observed = []"
    by code_simp
  have h'': "\<not> truthy (forceCreate ?b) \<and> ?m (seq_fullName ?b) = Some example_observed
      \<and> distinct (ATTRIBUTES ?b) \<and> set (ATTRIBUTES ?b) \<subseteq> sequence_attributes"
    by code_simp
  have e'': "alter_statement ?b (changed_clauses example_big ?b example_observed
              @ restart_clause example_big ?b example_observed True)
      = Some [\<lparr>operation = ''alter sequence'',
                value = ''alter sequence public.s maxvalue 9223372036854776000;''\<rparr>]"
    by code_simp
  from getSqlChanges_amended[of ?s ?m example_observed example_big True "Inr True"] h
  have 1: "getSqlChanges example_big ?s (Inr True) ?m
      = Inr (alter_statement ?s (changed_clauses example_big ?s example_observed
              @ restart_clause example_big ?s example_observed True))"
    by blast
  from getSqlChanges_amended[of ?n ?m example_observed example_big True "Inr True"] h' e'
  have 2: "getSqlChanges example_big ?n (Inr True) ?m = Inr None"
    by blast
  from getSqlChanges_amended[of ?b ?m example_observed example_big True "Inr True"] h''
  have 3: "getSqlChanges example_big ?b (Inr True) ?m
      = Inr (alter_statement ?b (changed_clauses example_big ?b example_observed
              @ restart_clause example_big ?b example_observed True))"
    by blast
  from 1 2 3 e e'' show ?thesis by simp
qed

text \<open>
  Claim C5 as it is written fails when the new minimum leaves the current value out of
  bounds: only \<open>min\<close> differs, and the statement has two clauses.
\<close>

theorem getSqlChanges_counterexample:
  "getSqlChanges example_big
     (example_sequence (example_desired (JNum 5) (JStr ''9223372036854775807'') (JNum 1)))
     (Inr False) (example_structures example_observed)
     = Inr (Some [\<lparr>operation = ''alter sequence'',
                   value = ''alter sequence public.s minvalue 5 restart with 5;''\<rparr>])
   \<and> changed example_big
        (ATTRIBUTES (example_sequence
           (example_desired (JNum 5) (JStr ''9223372036854775807'') (JNum 1))))
        (example_desired (JNum 5) (JStr ''9223372036854775807'') (JNum 1))
        example_observed = [''min'']
   \<and> truthy (forceCreate (example_sequence
        (example_desired (JNum 5) (JStr ''9223372036854775807'') (JNum 1)))) = False
   \<and> example_structures example_observed
        (seq_fullName (example_sequence
           (example_desired (JNum 5) (JStr ''9223372036854775807'') (JNum 1))))
      = Some example_observed"
  by code_simp

section \<open>Properties of the registry\<close>














section \<open>Sequencing\<close>

lemma io_bind_return [simp]: "io_bind (io_return x) f = f x"
  by (rule ext) (simp add: io_bind_def io_return_def)

lemma io_bind_assoc: "io_bind (io_bind m f) g = io_bind m (\<lambda>x. io_bind (f x) g)"
  by (rule ext) (simp add: io_bind_def split: prod.splits sum.splits)

lemma io_bind_Inl: "m s = (Inl e, s') \<Longrightarrow> io_bind m f s = (Inl e, s')"
  by (simp add: io_bind_def)

lemma io_bind_Inr: "m s = (Inr x, s') \<Longrightarrow> io_bind m f s = f x s'"
  by (simp add: io_bind_def)

lemma io_bind_fails:
  "io_bind m f s = (Inl e, s') \<Longrightarrow>
   m s = (Inl e, s') \<or> (\<exists>x s1. m s = (Inr x, s1) \<and> f x s1 = (Inl e, s'))"
  by (auto simp: io_bind_def split: prod.splits sum.splits)

section \<open>Properties of the seed step\<close>

lemma supportSeeds_iff: "supportSeeds v \<longleftrightarrow> (\<exists>r. v = Some (Finite r) \<and> r \<ge> 95 / 10)"
  by (auto simp: supportSeeds_def split: option.splits jsnumber.splits)

lemma sync_seeds_unsupported:
  "\<not> supportSeeds v \<Longrightarrow>
   sync_seeds race cl v tables = io_bind (logger seeds_warning) (\<lambda>u. io_return [])"
  by (simp add: sync_seeds_def)

lemma sync_try_unsupported:
  assumes "\<not> supportSeeds v"
  shows "sync_try race cl v tx tables sequences =
     io_bind (category race cl ''Sequences'' None sequences True) (\<lambda>q1.
     io_bind (category race cl ''Tables'' None (map getSqlCreateOrAlterTable tables) True) (\<lambda>q2.
     io_bind (category race cl ''Extensions'' (Some orderOfExtensions)
                (map getSqlExtensionChanges tables) True) (\<lambda>q3.
     io_bind (logger seeds_warning) (\<lambda>u.
     io_bind (category race cl ''Sequence values'' None
                (map getSqlSequenceActualize tables) True) (\<lambda>q5.
     sync_finish cl tx [Results q1, Results q2, Results q3, Results q5])))))"
  by (simp add: sync_try_def sync_seeds_unsupported[OF assms] io_bind_assoc)

lemma sync_try_seed_differs:
  assumes "\<not> supportSeeds v"
  shows "sync_try race cl v tx (map (\<lambda>t. t\<lparr>getSqlInsertSeeds := d t\<rparr>) tables) sequences
           = sync_try race cl v tx tables sequences"
  by (simp add: sync_try_unsupported[OF assms] comp_def)

text \<open>
  Claim C8. Seeds are supported exactly when the version the server reports is a number
  that is at least 9.5. With such a version the seed category is run. With any other
  version (a lower one, or none that could be read) the seed step makes no call on the
  client and only logs the warning; the try block of the sync is then the categories
  Sequences, Tables and Extensions, the warning, the category Sequence values and the
  end of the run, in this order; and the seed differs of the tables have no influence
  on it.
\<close>

theorem sync_seeds_gate:
  "(supportSeeds v \<longleftrightarrow> (\<exists>r. v = Some (Finite r) \<and> r \<ge> 95 / 10))
   \<and> (supportSeeds v \<longrightarrow>
        sync_seeds race cl v tables =
          io_bind (category race cl ''Seeds'' None (map getSqlInsertSeeds tables) False)
            (\<lambda>q. case q of
                   None \<Rightarrow> io_return []
                 | Some results \<Rightarrow>
                     io_bind (logger (LogInfo ''Inserted seeds'')) (\<lambda>u.
                     io_return [Count (calculateSuccessfulInsets results)])))
   \<and> (\<not> supportSeeds v \<longrightarrow>
        sync_seeds race cl v tables s = (Inr [], s\<lparr>logged := logged s @ [seeds_warning]\<rparr>)
        \<and> sync_try race cl v tx tables sequences =
            io_bind (category race cl ''Sequences'' None sequences True) (\<lambda>q1.
            io_bind (category race cl ''Tables'' None (map getSqlCreateOrAlterTable tables) True) (\<lambda>q2.
            io_bind (category race cl ''Extensions'' (Some orderOfExtensions)
                       (map getSqlExtensionChanges tables) True) (\<lambda>q3.
            io_bind (logger seeds_warning) (\<lambda>u.
            io_bind (category race cl ''Sequence values'' None
                       (map getSqlSequenceActualize tables) True) (\<lambda>q5.
            sync_finish cl tx [Results q1, Results q2, Results q3, Results q5])))))
        \<and> sync_try race cl v tx (map (\<lambda>t. t\<lparr>getSqlInsertSeeds := d t\<rparr>) tables) sequences
            = sync_try race cl v tx tables sequences)"
proof (intro conjI impI)
  show "supportSeeds v \<longleftrightarrow> (\<exists>r. v = Some (Finite r) \<and> r \<ge> 95 / 10)"
    by (rule supportSeeds_iff)
next
  assume "supportSeeds v"
  then show "sync_seeds race cl v tables =
          io_bind (category race cl ''Seeds'' None (map getSqlInsertSeeds tables) False)
            (\<lambda>q. case q of
                   None \<Rightarrow> io_return []
                 | Some results \<Rightarrow>
                     io_bind (logger (LogInfo ''Inserted seeds'')) (\<lambda>u.
                     io_return [Count (calculateSuccessfulInsets results)]))"
    by (simp add: sync_seeds_def)
next
  assume n: "\<not> supportSeeds v"
  show "sync_seeds race cl v tables s = (Inr [], s\<lparr>logged := logged s @ [seeds_warning]\<rparr>)"
    by (simp add: sync_seeds_unsupported[OF n] io_bind_def logger_def io_return_def)
  show "sync_try race cl v tx tables sequences =
            io_bind (category race cl ''Sequences'' None sequences True) (\<lambda>q1.
            io_bind (category race cl ''Tables'' None (map getSqlCreateOrAlterTable tables) True) (\<lambda>q2.
            io_bind (category race cl ''Extensions'' (Some orderOfExtensions)
                       (map getSqlExtensionChanges tables) True) (\<lambda>q3.
            io_bind (logger seeds_warning) (\<lambda>u.
            io_bind (category race cl ''Sequence values'' None
                       (map getSqlSequenceActualize tables) True) (\<lambda>q5.
            sync_finish cl tx [Results q1, Results q2, Results q3, Results q5])))))"
    using n by (rule sync_try_unsupported)
  show "sync_try race cl v tx (map (\<lambda>t. t\<lparr>getSqlInsertSeeds := d t\<rparr>) tables) sequences
            = sync_try race cl v tx tables sequences"
    using n by (rule sync_try_seed_differs)
qed

theorem sync_seeds_gate_witness:
  "\<not> supportSeeds (Some (Finite (94 / 10)))
   \<and> sync_seeds example_race (example_client ''PostgreSQL 9.4.1'' []) (Some (Finite (94 / 10)))
        [example_table [] [] [Sql_create ''insert seed'' ''ins''] [Sql_create ''setval'' ''setval'']]
        st0
      = (Inr [], \<lparr>calls = [], logged = [seeds_warning]\<rparr>)
   \<and> sync example_race (example_client ''PostgreSQL 9.4.1'' []) example_Number True
        [example_table [] [] [Sql_create ''insert seed'' ''ins''] [Sql_create ''setval'' ''setval'']]
        [] st0
      = (Inr (),
         \<lparr>calls = [Query ''select version()'', Query ''begin'', Query ''setval'',
                   Query ''commit'', End],
          logged = [LogInfo ''Sync started'', LogInfo ''Current version PostgreSQL'',
                    seeds_warning, LogInfo ''Sequence values updating...'',
                    LogInfo ''Sequence values updated successfully'',
                    LogInfo ''Sync successful!'']\<rparr>)
   \<and> supportSeeds (Some (Finite (104 / 10)))"
proof -
  have n: "\<not> supportSeeds (Some (Finite (94 / 10)))"
    by (simp add: supportSeeds_def)
  have y: "supportSeeds (Some (Finite (104 / 10)))"
    by (simp add: supportSeeds_def)
  have r: "sync example_race (example_client ''PostgreSQL 9.4.1'' []) example_Number True
        [example_table [] [] [Sql_create ''insert seed'' ''ins''] [Sql_create ''setval'' ''setval'']]
        [] st0
      = (Inr (),
         \<lparr>calls = [Query ''select version()'', Query ''begin'', Query ''setval'',
                   Query ''commit'', End],
          logged = [LogInfo ''Sync started'', LogInfo ''Current version PostgreSQL'',
                    seeds_warning, LogInfo ''Sequence values updating...'',
                    LogInfo ''Sequence values updated successfully'',
                    LogInfo ''Sync successful!'']\<rparr>)"
    by code_simp
  from sync_seeds_gate
      [of "Some (Finite (94 / 10))" example_race "example_client ''PostgreSQL 9.4.1'' []"
        "[example_table [] [] [Sql_create ''insert seed'' ''ins''] [Sql_create ''setval'' ''setval'']]"
        st0] n
  have "sync_seeds example_race (example_client ''PostgreSQL 9.4.1'' []) (Some (Finite (94 / 10)))
        [example_table [] [] [Sql_create ''insert seed'' ''ins''] [Sql_create ''setval'' ''setval'']]
        st0
      = (Inr [], st0\<lparr>logged := logged st0 @ [seeds_warning]\<rparr>)"
    by blast
  with n y r show ?thesis by (simp add: st0_def)
qed

section \<open>A sync with nothing to do\<close>

lemma category_empty:
  "getFlatAndSortedSqlList race ord (map (\<lambda>d. d (calls s)) ds) = Inr [] \<Longrightarrow>
   category race cl entity ord ds lg s = (Inr None, s)"
  by (simp add: category_def entitySync_def)

lemma sync_nothing_to_do:
  assumes v: "getDatabaseVersion cl N s = (Inr v, s1)"
    and h: "h1 = calls s1 @ (if tx then [Query ''begin''] else [])"
    and b: "tx \<longrightarrow> (\<exists>r. cl h1 = Inr r)"
    and e1: "getFlatAndSortedSqlList race None (map (\<lambda>d. d h1) sequences) = Inr []"
    and e2: "getFlatAndSortedSqlList race None (map (\<lambda>d. d h1) (map getSqlCreateOrAlterTable tables)) = Inr []"
    and e3: "getFlatAndSortedSqlList race (Some orderOfExtensions)
               (map (\<lambda>d. d h1) (map getSqlExtensionChanges tables)) = Inr []"
    and e4: "supportSeeds v \<longrightarrow>
             getFlatAndSortedSqlList race None (map (\<lambda>d. d h1) (map getSqlInsertSeeds tables)) = Inr []"
    and e5: "getFlatAndSortedSqlList race None (map (\<lambda>d. d h1) (map getSqlSequenceActualize tables)) = Inr []"
    and c: "tx \<longrightarrow> (\<exists>r. cl (h1 @ [Query ''commit'']) = Inr r)"
    and en: "\<exists>r. cl (h1 @ (if tx then [Query ''commit''] else []) @ [End]) = Inr r"
  shows "sync race cl N tx tables sequences s =
           (Inr (),
            \<lparr>calls = h1 @ (if tx then [Query ''commit''] else []) @ [End],
             logged = logged s1 @ [LogInfo ''Sync started'', LogInfo ''Current version PostgreSQL'']
                      @ (if supportSeeds v then [] else [seeds_warning])
                      @ [LogInfo ''Database does not need updating'',
                         LogInfo ''Sync successful!'']\<rparr>)"
proof -
  define s2 where "s2 = s1\<lparr>logged := logged s1 @ [LogInfo ''Sync started'', LogInfo ''Current version PostgreSQL'']\<rparr>"
  define s3 where "s3 = s2\<lparr>calls := h1\<rparr>"
  have c3: "calls s3 = h1" by (simp add: s3_def)
  have l3: "logged s3 = logged s1 @ [LogInfo ''Sync started'', LogInfo ''Current version PostgreSQL'']"
    by (simp add: s3_def s2_def)
  have bg: "io_when tx (io_bind (client_query cl ''begin'') (\<lambda>r. io_return ())) s2 = (Inr (), s3)"
  proof (cases tx)
    case True
    with b obtain r where "cl h1 = Inr r" by blast
    with True h show ?thesis
      by (simp add: io_when_def io_bind_def client_query_def io_return_def s3_def s2_def Let_def)
  next
    case False
    with h show ?thesis
      by (simp add: io_when_def io_return_def s3_def s2_def)
  qed
  have k1: "category race cl ''Sequences'' None sequences True s3 = (Inr None, s3)"
    using e1 by (intro category_empty) (simp add: c3)
  have k2: "category race cl ''Tables'' None (map getSqlCreateOrAlterTable tables) True s3 = (Inr None, s3)"
    using e2 by (intro category_empty) (simp add: c3)
  have k3: "category race cl ''Extensions'' (Some orderOfExtensions)
                (map getSqlExtensionChanges tables) True s3 = (Inr None, s3)"
    using e3 by (intro category_empty) (simp add: c3)
  define s4 where "s4 = (if supportSeeds v then s3 else s3\<lparr>logged := logged s3 @ [seeds_warning]\<rparr>)"
  have c4: "calls s4 = h1" by (simp add: s4_def c3)
  have k4: "sync_seeds race cl v tables s3 = (Inr [], s4)"
  proof (cases "supportSeeds v")
    case True
    with e4 have "category race cl ''Seeds'' None (map getSqlInsertSeeds tables) False s3 = (Inr None, s3)"
      by (intro category_empty) (simp add: c3)
    with True show ?thesis
      by (simp add: sync_seeds_def io_bind_def io_return_def s4_def)
  next
    case False
    then show ?thesis
      by (simp add: sync_seeds_def io_bind_def io_return_def logger_def s4_def)
  qed
  have k5: "category race cl ''Sequence values'' None
                (map getSqlSequenceActualize tables) True s4 = (Inr None, s4)"
    using e5 by (intro category_empty) (simp add: c4)
  let ?final = "\<lparr>calls = h1 @ (if tx then [Query ''commit''] else []) @ [End],
             logged = logged s1 @ [LogInfo ''Sync started'', LogInfo ''Current version PostgreSQL'']
                      @ (if supportSeeds v then [] else [seeds_warning])
                      @ [LogInfo ''Database does not need updating'',
                         LogInfo ''Sync successful!'']\<rparr>"
  have fin: "sync_finish cl tx [Results None, Results None, Results None, Results None] s4
               = (Inr (), ?final)"
  proof (cases tx)
    case True
    with c obtain r where r: "cl (h1 @ [Query ''commit'']) = Inr r" by blast
    from en True obtain r' where r': "cl (h1 @ [Query ''commit'', End]) = Inr r'" by auto
    from True r r' show ?thesis
      by (simp add: sync_finish_def io_when_def io_bind_def logger_def client_query_def
          client_end_def io_return_def Let_def c4 s4_def l3 c3)
  next
    case False
    from en False obtain r' where r': "cl (h1 @ [End]) = Inr r'" by auto
    from False r' show ?thesis
      by (simp add: sync_finish_def io_when_def io_bind_def logger_def
          client_end_def io_return_def Let_def c4 s4_def l3 c3)
  qed
  have tr: "sync_try race cl v tx tables sequences s3 = (Inr (), ?final)"
    unfolding sync_try_def
    by (simp add: k1 k2 k3 k4 k5 fin io_bind_def)
  show ?thesis
    unfolding sync_def
    by (simp add: io_bind_def v logger_def bg[unfolded s2_def] tr io_catch_def s2_def)
qed

text \<open>
  Claim C7, as amended. When the version could be read and the flattened statement list
  of every category is empty (that of the seeds where seeds are supported), the sync
  executes no statement and logs that the database does not need updating. With
  transaction wrapping enabled it has issued \<open>begin\<close> before the diff phase all the
  same, and issues \<open>commit\<close> after it; with wrapping disabled it issues neither. The
  calls on the client are the version query, \<open>begin\<close> and \<open>commit\<close> under wrapping, and
  the release.
\<close>

theorem sync_no_changes:
  assumes "getDatabaseVersion cl N s = (Inr v, s1)"
    and "h1 = calls s1 @ (if tx then [Query ''begin''] else [])"
    and "tx \<longrightarrow> (\<exists>r. cl h1 = Inr r)"
    and "getFlatAndSortedSqlList race None (map (\<lambda>d. d h1) sequences) = Inr []"
    and "getFlatAndSortedSqlList race None
           (map (\<lambda>d. d h1) (map getSqlCreateOrAlterTable tables)) = Inr []"
    and "getFlatAndSortedSqlList race (Some orderOfExtensions)
           (map (\<lambda>d. d h1) (map getSqlExtensionChanges tables)) = Inr []"
    and "supportSeeds v \<longrightarrow>
         getFlatAndSortedSqlList race None (map (\<lambda>d. d h1) (map getSqlInsertSeeds tables)) = Inr []"
    and "getFlatAndSortedSqlList race None
           (map (\<lambda>d. d h1) (map getSqlSequenceActualize tables)) = Inr []"
    and "tx \<longrightarrow> (\<exists>r. cl (h1 @ [Query ''commit'']) = Inr r)"
    and "\<exists>r. cl (h1 @ (if tx then [Query ''commit''] else []) @ [End]) = Inr r"
  shows "sync race cl N tx tables sequences s =
           (Inr (),
            \<lparr>calls = calls s1 @ (if tx then [Query ''begin'', Query ''commit''] else []) @ [End],
             logged = logged s1 @ [LogInfo ''Sync started'', LogInfo ''Current version PostgreSQL'']
                      @ (if supportSeeds v then [] else [seeds_warning])
                      @ [LogInfo ''Database does not need updating'',
                         LogInfo ''Sync successful!'']\<rparr>)"
  using sync_nothing_to_do[OF assms] assms(2) by (cases tx) simp_all

theorem sync_no_changes_witness:
  "sync example_race (example_client ''PostgreSQL 10.4'' []) example_Number True
     [example_table [] [] [] []] [constant_differ []] st0 =
     (Inr (),
      \<lparr>calls = [Query ''select version()'', Query ''begin'', Query ''commit'', End],
       logged = [LogInfo ''Sync started'', LogInfo ''Current version PostgreSQL'',
                 LogInfo ''Database does not need updating'',
                 LogInfo ''Sync successful!'']\<rparr>)"
proof -
  let ?cl = "example_client ''PostgreSQL 10.4'' []"
  let ?s1 = "\<lparr>calls = [Query ''select version()''], logged = []\<rparr>"
  let ?v = "Some (Finite (104 / 10))"
  let ?h1 = "[Query ''select version()'', Query ''begin'']"
  let ?tables = "[example_table [] [] [] []]"
  let ?sequences = "[constant_differ []]"
  have 1: "getDatabaseVersion ?cl example_Number st0 = (Inr ?v, ?s1)"
    by code_simp
  have 2: "?h1 = calls ?s1 @ (if True then [Query ''begin''] else [])"
    by simp
  have 3: "True \<longrightarrow> (\<exists>r. ?cl ?h1 = Inr r)"
    by (simp add: example_client_def)
  have 4: "getFlatAndSortedSqlList example_race None (map (\<lambda>d. d ?h1) ?sequences) = Inr []"
    by code_simp
  have 5: "getFlatAndSortedSqlList example_race None
           (map (\<lambda>d. d ?h1) (map getSqlCreateOrAlterTable ?tables)) = Inr []"
    by code_simp
  have 6: "getFlatAndSortedSqlList example_race (Some orderOfExtensions)
           (map (\<lambda>d. d ?h1) (map getSqlExtensionChanges ?tables)) = Inr []"
    by code_simp
  have 7: "supportSeeds ?v \<longrightarrow>
         getFlatAndSortedSqlList example_race None (map (\<lambda>d. d ?h1) (map getSqlInsertSeeds ?tables)) = Inr []"
    by code_simp
  have 8: "getFlatAndSortedSqlList example_race None
           (map (\<lambda>d. d ?h1) (map getSqlSequenceActualize ?tables)) = Inr []"
    by code_simp
  have 9: "True \<longrightarrow> (\<exists>r. ?cl (?h1 @ [Query ''commit'']) = Inr r)"
    by (simp add: example_client_def)
  have 10: "\<exists>r. ?cl (?h1 @ (if True then [Query ''commit''] else []) @ [End]) = Inr r"
    by (simp add: example_client_def)
  have y: "supportSeeds ?v" by (simp add: supportSeeds_def)
  from sync_no_changes[OF 1 2 3 4 5 6 7 8 9 10] y show ?thesis by simp
qed

text \<open>
  Claim C7 as it is written fails under the default options: with no table and no
  sequence at all, \<open>begin\<close> is issued, and \<open>commit\<close> after it.
\<close>

theorem sync_no_changes_counterexample:
  "sync example_race (example_client ''PostgreSQL 10.4'' []) example_Number True [] [] st0 =
     (Inr (),
      \<lparr>calls = [Query ''select version()'', Query ''begin'', Query ''commit'', End],
       logged = [LogInfo ''Sync started'', LogInfo ''Current version PostgreSQL'',
                 LogInfo ''Database does not need updating'',
                 LogInfo ''Sync successful!'']\<rparr>)"
  by code_simp

section \<open>A sync that fails\<close>

lemma exec_all_fails:
  "exec_all cl qs s = (Inl e, s') \<Longrightarrow>
   \<exists>pre q rest. qs = pre @ q # rest \<and> calls s' = calls s @ map Query pre @ [Query q]
      \<and> cl (calls s') = Inl e \<and> logged s' = logged s"
proof (induction qs arbitrary: s)
  case Nil then show ?case by simp
next
  case (Cons q qs)
  let ?s1 = "s\<lparr>calls := calls s @ [Query q]\<rparr>"
  have cq: "client_query cl q s = (cl (calls ?s1), ?s1)"
    by (simp add: client_query_def Let_def)
  show ?case
  proof (cases "cl (calls ?s1)")
    case (Inl e1)
    with Cons.prems cq have "e1 = e" "s' = ?s1" by simp_all
    with Inl have "q # qs = [] @ q # qs \<and> calls s' = calls s @ map Query [] @ [Query q]
        \<and> cl (calls s') = Inl e \<and> logged s' = logged s" by simp
    then show ?thesis by blast
  next
    case (Inr r)
    with Cons.prems cq have "exec_all cl qs ?s1 = (Inl e, s')"
      by (auto split: prod.splits sum.splits)
    from Cons.IH[OF this] obtain pre q' rest where
      p: "qs = pre @ q' # rest" "calls s' = calls ?s1 @ map Query pre @ [Query q']"
         "cl (calls s') = Inl e" "logged s' = logged ?s1"
      by blast
    then have "q # qs = (q # pre) @ q' # rest \<and>
        calls s' = calls s @ map Query (q # pre) @ [Query q'] \<and>
        cl (calls s') = Inl e \<and> logged s' = logged s" by simp
    then show ?thesis by blast
  qed
qed

lemma getFlat_fails:
  "getFlatAndSortedSqlList race ord ps = Inl e \<Longrightarrow> promise_all race ps = Inl e"
  by (auto simp: getFlatAndSortedSqlList_def Let_def split: sum.splits)

lemma io_when_logger: "io_when b (logger x) s = (Inr (), if b then s\<lparr>logged := logged s @ [x]\<rparr> else s)"
  by (simp add: io_when_def logger_def io_return_def)

lemma category_fails:
  assumes "category race cl entity ord ds lg s = (Inl e, s')"
  shows "(promise_all race (map (\<lambda>d. d (calls s)) ds) = Inl e \<and> s' = s)
     \<or> (\<exists>sql pre q rest.
           getFlatAndSortedSqlList race ord (map (\<lambda>d. d (calls s)) ds) = Inr sql
           \<and> uniq sql = pre @ q # rest
           \<and> calls s' = calls s @ map Query pre @ [Query q]
           \<and> cl (calls s') = Inl e)"
proof (cases "getFlatAndSortedSqlList race ord (map (\<lambda>d. d (calls s)) ds)")
  case (Inl e1)
  with assms have "e1 = e" "s' = s" by (simp_all add: category_def entitySync_def)
  with Inl getFlat_fails show ?thesis by blast
next
  case (Inr sql)
  let ?s1 = "if lg then s\<lparr>logged := logged s @ [LogInfo (entity @ '' updating...'')]\<rparr> else s"
  have ne: "sql \<noteq> []" using assms Inr by (auto simp: category_def entitySync_def)
  have "exec_all cl (uniq sql) ?s1 = (Inl e, s')"
    using assms Inr ne
    by (auto simp: category_def entitySync_def io_bind_def io_when_logger io_return_def
        split: prod.splits sum.splits if_splits)
  from exec_all_fails[OF this] obtain pre q rest where
    "uniq sql = pre @ q # rest" "calls s' = calls ?s1 @ map Query pre @ [Query q]"
    "cl (calls s') = Inl e" by blast
  then have "uniq sql = pre @ q # rest \<and> calls s' = calls s @ map Query pre @ [Query q]
      \<and> cl (calls s') = Inl e" by simp
  with Inr show ?thesis by blast
qed

lemma sync_fails_in_try:
  assumes v: "getDatabaseVersion cl N s = (Inr v, s1)"
    and b: "tx \<longrightarrow> (\<exists>r. cl (calls s1 @ [Query ''begin'']) = Inr r)"
    and t: "sync_try race cl v tx tables sequences (started s1 tx) = (Inl e, sb)"
  shows "sync race cl N tx tables sequences s = sync_catch cl tx e sb"
proof -
  define s2 where "s2 = s1\<lparr>logged := logged s1 @ [LogInfo ''Sync started'', LogInfo ''Current version PostgreSQL'']\<rparr>"
  have bg: "io_when tx (io_bind (client_query cl ''begin'') (\<lambda>r. io_return ())) s2 = (Inr (), started s1 tx)"
  proof (cases tx)
    case True
    with b obtain r where "cl (calls s1 @ [Query ''begin'']) = Inr r" by blast
    with True show ?thesis
      by (simp add: io_when_def io_bind_def client_query_def io_return_def started_def s2_def Let_def)
  next
    case False
    then show ?thesis
      by (simp add: io_when_def io_return_def started_def s2_def)
  qed
  show ?thesis
    unfolding sync_def
    by (simp add: io_bind_def v logger_def bg[unfolded s2_def] t io_catch_def)
qed

lemma sync_catch_ok:
  assumes "tx \<longrightarrow> (\<exists>r. cl (calls sb @ [Query ''rollback'']) = Inr r)"
    and "\<exists>r. cl (calls sb @ (if tx then [Query ''rollback''] else []) @ [End]) = Inr r"
  shows "sync_catch cl tx e sb =
     (Inl e, sb\<lparr>calls := calls sb @ (if tx then [Query ''rollback''] else []) @ [End]\<rparr>)"
proof (cases tx)
  case True
  with assms obtain r r' where "cl (calls sb @ [Query ''rollback'']) = Inr r"
    "cl (calls sb @ [Query ''rollback'', End]) = Inr r'" by auto
  with True show ?thesis
    by (simp add: sync_catch_def io_when_def io_bind_def client_query_def client_end_def
        io_return_def io_throw_def Let_def)
next
  case False
  with assms obtain r' where "cl (calls sb @ [End]) = Inr r'" by auto
  with False show ?thesis
    by (simp add: sync_catch_def io_when_def io_bind_def client_end_def
        io_return_def io_throw_def Let_def)
qed

lemma sync_catch_rollback_fails:
  "cl (calls sb @ [Query ''rollback'']) = Inl e' \<Longrightarrow>
   sync_catch cl True e sb = (Inl e', sb\<lparr>calls := calls sb @ [Query ''rollback'']\<rparr>)"
  by (simp add: sync_catch_def io_when_def io_bind_def client_query_def Let_def)

lemma sync_catch_end_fails:
  assumes "tx \<longrightarrow> (\<exists>r. cl (calls sb @ [Query ''rollback'']) = Inr r)"
    and "cl (calls sb @ (if tx then [Query ''rollback''] else []) @ [End]) = Inl e'"
  shows "sync_catch cl tx e sb =
     (Inl e', sb\<lparr>calls := calls sb @ (if tx then [Query ''rollback''] else []) @ [End]\<rparr>)"
proof (cases tx)
  case True
  with assms obtain r where "cl (calls sb @ [Query ''rollback'']) = Inr r" by auto
  with True assms(2) show ?thesis
    by (simp add: sync_catch_def io_when_def io_bind_def client_query_def client_end_def
        io_return_def io_throw_def Let_def)
next
  case False
  with assms(2) show ?thesis
    by (simp add: sync_catch_def io_when_def io_bind_def client_end_def
        io_return_def io_throw_def Let_def)
qed

text \<open>
  Claim C4. When a statement fails during the execution phase, the executor issues
  \<open>rollback\<close> (transaction wrapping being enabled), releases the connection and raises
  the original error again; the failed statement is not retried and the statements after
  it are not sent. The code does so when the rollback succeeds: of the statements \<open>s1\<close>,
  \<open>s2\<close>, \<open>s3\<close> with \<open>s2\<close> failing, the client sees \<open>s1\<close>, \<open>s2\<close>, \<open>rollback\<close> and the end,
  and the error is the one of \<open>s2\<close>. The catch block awaits the rollback before it ends
  the client and throws, so on a connection on which \<open>s2\<close> and then the rollback fail,
  the error raised is the rollback's and the client is never ended.
\<close>

theorem sync_rollback_failure:
  "sync example_race (example_client ''PostgreSQL 10.4'' [''s2'']) example_Number True
     [example_table [Sql_create ''create table'' ''s1'', Sql_create ''alter table'' ''s2'',
                     Sql_create ''alter table'' ''s3''] [] [] []] [] st0 =
     (Inl (QueryError ''s2''),
      \<lparr>calls = [Query ''select version()'', Query ''begin'', Query ''s1'', Query ''s2'',
                Query ''rollback'', End],
       logged = [LogInfo ''Sync started'', LogInfo ''Current version PostgreSQL'',
                 LogInfo ''Tables updating...'']\<rparr>)
   \<and> sync example_race (example_client ''PostgreSQL 10.4'' [''s2'', ''rollback''])
       example_Number True
     [example_table [Sql_create ''create table'' ''s1'', Sql_create ''alter table'' ''s2'',
                     Sql_create ''alter table'' ''s3''] [] [] []] [] st0 =
     (Inl (QueryError ''rollback''),
      \<lparr>calls = [Query ''select version()'', Query ''begin'', Query ''s1'', Query ''s2'',
                Query ''rollback''],
       logged = [LogInfo ''Sync started'', LogInfo ''Current version PostgreSQL'',
                 LogInfo ''Tables updating...'']\<rparr>)"
  by code_simp

section \<open>The order of the Extensions category\<close>




















end
